theory Spec2Isabelle
  imports Main "HOL-Library.Word"
begin

section \<open>JSON values and documents\<close>

text \<open>
  What the content store reads and writes is JSON. A JSON value is a tree; an object is an
  association list in insertion order, and the first pair with a key is the property (a parsed
  object has each key once). Numbers are integers here: the store never computes with them.
\<close>

datatype json =
    JNull
  | JBool bool
  | JNum int
  | JStr string
  | JArr "json list"
  | JObj "(string \<times> json) list"

text \<open>
  A document (the text of a file, of a response body, of a localStorage item) is modelled up
  to its parse: either it is well-formed JSON, and then it is given by the value it denotes, or
  it is some other sequence of bytes.
\<close>

datatype document = Json json | Malformed string

text \<open>\<open>JSON.parse\<close>: \<open>None\<close> stands for the SyntaxError it throws.\<close>

fun JSON_parse :: "document \<Rightarrow> json option" where
  "JSON_parse (Json v) = Some v"
| "JSON_parse (Malformed bytes) = None"

definition JSON_stringify :: "json \<Rightarrow> document" where
  "JSON_stringify v = Json v"

text \<open>
  Truthiness of a parsed value that may be missing (\<open>undefined\<close> is \<open>None\<close>), as \<open>init\<close> needs it
  for the configuration it has just fetched.
\<close>

fun truthy :: "json option \<Rightarrow> bool" where
  "truthy None = False"
| "truthy (Some JNull) = False"
| "truthy (Some (JBool b)) = b"
| "truthy (Some (JNum n)) = (n \<noteq> 0)"
| "truthy (Some (JStr s)) = (s \<noteq> [])"
| "truthy (Some (JArr xs)) = True"
| "truthy (Some (JObj ps)) = True"

text \<open>
  Assignment to an own property, \<open>obj[k] = v\<close>: replaces the value of an existing key in place,
  appends a new key.
\<close>

fun put :: "string \<Rightarrow> 'v \<Rightarrow> (string \<times> 'v) list \<Rightarrow> (string \<times> 'v) list" where
  "put k v [] = [(k, v)]"
| "put k v (p # ps) = (if fst p = k then (k, v) # ps else p # put k v ps)"

section \<open>Values and objects in memory\<close>

text \<open>
  In memory an object has an identity: \<open>add\<close> stores the very object it is given, \<open>update\<close>
  assigns to the stored object in place, and the same object may be reachable from several
  places. So a value in memory is a primitive, an array of values, or a reference to an object
  of the heap, and the heap holds for each object its own properties (in insertion order) and
  its prototype. Arrays are kept as values: the only arrays the module changes in place are
  the four collections of \<open>_data\<close>, which it reaches through \<open>_data\<close> alone.
\<close>

datatype jsval =
    VNull
  | VBool bool
  | VNum int
  | VStr string
  | VArr "jsval list"
  | VRef nat

text \<open>
  The prototype of an object: \<open>Object.prototype\<close> (what an object literal and a parsed object
  have), some array, nothing (\<open>null\<close>), or an object of the heap. Only an assignment to
  \<open>__proto__\<close> changes it.
\<close>

datatype prototype = ObjectPrototype | AnArray | NoPrototype | ObjectAt nat

record jsobject =
  own :: "(string \<times> jsval) list"
  proto :: prototype

type_synonym heap = "jsobject list"

text \<open>
  The object at an address. Every reference the module meets points into the heap; for any
  other address this is an object without properties.
\<close>

definition obj_at :: "heap \<Rightarrow> nat \<Rightarrow> jsobject" where
  "obj_at h a = (if a < length h then h ! a else \<lparr>own = [], proto = ObjectPrototype\<rparr>)"

text \<open>Truthiness of a value in memory that may be missing, and \<open>Array.isArray\<close>.\<close>

fun truthy_val :: "jsval option \<Rightarrow> bool" where
  "truthy_val None = False"
| "truthy_val (Some VNull) = False"
| "truthy_val (Some (VBool b)) = b"
| "truthy_val (Some (VNum n)) = (n \<noteq> 0)"
| "truthy_val (Some (VStr s)) = (s \<noteq> [])"
| "truthy_val (Some (VArr xs)) = True"
| "truthy_val (Some (VRef a)) = True"

fun isArray :: "jsval option \<Rightarrow> bool" where
  "isArray (Some (VArr xs)) = True"
| "isArray v = False"

subsection \<open>Parsed values enter the memory\<close>

text \<open>
  The value \<open>JSON.parse\<close> returns is made of new objects, each with \<open>Object.prototype\<close> and the
  parsed pairs as own properties (also a pair whose key is \<open>__proto__\<close>). \<open>alloc\<close> places a
  parsed value in the heap and returns the value in memory that stands for it.
\<close>

fun alloc :: "json \<Rightarrow> heap \<Rightarrow> jsval \<times> heap"
  and alloc_list :: "json list \<Rightarrow> heap \<Rightarrow> jsval list \<times> heap"
  and alloc_fields :: "(string \<times> json) list \<Rightarrow> heap \<Rightarrow> (string \<times> jsval) list \<times> heap" where
  "alloc JNull h = (VNull, h)"
| "alloc (JBool b) h = (VBool b, h)"
| "alloc (JNum n) h = (VNum n, h)"
| "alloc (JStr s) h = (VStr s, h)"
| "alloc (JArr xs) h = (case alloc_list xs h of (vs, h') \<Rightarrow> (VArr vs, h'))"
| "alloc (JObj ps) h =
     (case alloc_fields ps h of
        (fs, h') \<Rightarrow> (VRef (length h'), h' @ [\<lparr>own = fs, proto = ObjectPrototype\<rparr>]))"
| "alloc_list [] h = ([], h)"
| "alloc_list (x # xs) h =
     (case alloc x h of (v, h1) \<Rightarrow> (case alloc_list xs h1 of (vs, h2) \<Rightarrow> (v # vs, h2)))"
| "alloc_fields [] h = ([], h)"
| "alloc_fields (p # ps) h =
     (case alloc (snd p) h of
        (v, h1) \<Rightarrow> (case alloc_fields ps h1 of (fs, h2) \<Rightarrow> ((fst p, v) # fs, h2)))"

subsection \<open>Reading a property\<close>

text \<open>
  The objects of the heap above a prototype, nearest first. A prototype chain has no cycle
  (the setter of \<open>__proto__\<close> refuses to make one), so the walk ends; \<open>seen\<close> are the objects
  already passed.
\<close>

function ancestors :: "heap \<Rightarrow> nat list \<Rightarrow> prototype \<Rightarrow> nat list" where
  "ancestors h seen (ObjectAt b) =
     (if b < length h \<and> b \<notin> set seen then b # ancestors h (b # seen) (proto (h ! b)) else [])"
| "ancestors h seen ObjectPrototype = []"
| "ancestors h seen AnArray = []"
| "ancestors h seen NoPrototype = []"
  by pat_completeness auto
termination
proof (relation "measure (\<lambda>(h, seen, p). card ({..<length h} - set seen))")
  fix h :: heap and seen :: "nat list" and b :: nat
  assume b: "b < length h \<and> b \<notin> set seen"
  have "b \<in> {..<length h} - set seen"
    using b by simp
  moreover have "b \<notin> {..<length h} - set (b # seen)"
    by simp
  moreover have "{..<length h} - set (b # seen) \<subseteq> {..<length h} - set seen"
    by (simp add: subset_iff)
  ultimately have "{..<length h} - set (b # seen) \<subset> {..<length h} - set seen"
    by blast
  then have "card ({..<length h} - set (b # seen)) < card ({..<length h} - set seen)"
    by (intro psubset_card_mono) simp_all
  then show "((h, b # seen, proto (h ! b)), h, seen, ObjectAt b)
               \<in> measure (\<lambda>(h, seen, p). card ({..<length h} - set seen))"
    by (simp del: set_simps Diff_insert)
qed simp

text \<open>An object and the objects above it, and the prototype in which this chain ends.\<close>

definition chain :: "heap \<Rightarrow> nat \<Rightarrow> nat list" where
  "chain h a = a # ancestors h [a] (proto (obj_at h a))"

definition chain_end :: "heap \<Rightarrow> nat \<Rightarrow> prototype" where
  "chain_end h a = proto (obj_at h (last (chain h a)))"

fun first_own :: "heap \<Rightarrow> nat list \<Rightarrow> string \<Rightarrow> jsval option" where
  "first_own h [] k = None"
| "first_own h (a # as) k =
     (case map_of (own (obj_at h a)) k of Some v \<Rightarrow> Some v | None \<Rightarrow> first_own h as k)"

text \<open>
  \<open>v.k\<close> for a value \<open>v\<close> other than \<open>null\<close> and \<open>k\<close> one of the names the module reads (\<open>id\<close>,
  \<open>type\<close>, \<open>date\<close>): the first own property of that name along the prototype chain. The
  built-in prototypes define none of these names, so a string, a number, a boolean or an array
  has no such property.
\<close>

definition read_prop :: "heap \<Rightarrow> jsval \<Rightarrow> string \<Rightarrow> jsval option" where
  "read_prop h v k = (case v of VRef a \<Rightarrow> first_own h (chain h a) k | _ \<Rightarrow> None)"

subsection \<open>Assigning to a property\<close>

datatype failure =
    NetworkFailure
  | SyntaxError
  | CloudHttpError
  | NoFileProvided
  | InvalidJSONFile
  | FailedToReadFile
  | TypeError

definition set_own :: "nat \<Rightarrow> string \<Rightarrow> jsval \<Rightarrow> heap \<Rightarrow> heap" where
  "set_own a k v h = h[a := (obj_at h a)\<lparr>own := put k v (own (obj_at h a))\<rparr>]"

definition set_proto :: "nat \<Rightarrow> prototype \<Rightarrow> heap \<Rightarrow> heap" where
  "set_proto a p h = h[a := (obj_at h a)\<lparr>proto := p\<rparr>]"

text \<open>
  Whether the name \<open>__proto__\<close> resolves, for the object at \<open>a\<close>, to the accessor of
  \<open>Object.prototype\<close>: no object of the chain has an own property of that name, and the chain
  ends in \<open>Object.prototype\<close> (for an array, above \<open>Array.prototype\<close>).
\<close>

definition reaches_setter :: "heap \<Rightarrow> nat \<Rightarrow> bool" where
  "reaches_setter h a =
     (first_own h (chain h a) ''__proto__'' = None \<and>
      (chain_end h a = ObjectPrototype \<or> chain_end h a = AnArray))"

text \<open>
  \<open>obj[k] = v\<close> for the object at \<open>a\<close>. An own property is set, and one is created when the
  name is inherited from a data property or not found. The one inherited accessor is
  \<open>__proto__\<close>: its setter stores no property; it makes an object or \<open>null\<close> the prototype,
  throws a TypeError when that would close a cycle, and ignores any other value.
\<close>

definition assign :: "nat \<Rightarrow> string \<Rightarrow> jsval \<Rightarrow> heap \<Rightarrow> failure + heap" where
  "assign a k v h =
     (if k = ''__proto__'' \<and> reaches_setter h a then
        (case v of
           VRef b \<Rightarrow>
             if proto (obj_at h a) = ObjectAt b then Inr h
             else if a \<in> set (chain h b) then Inl TypeError
             else Inr (set_proto a (ObjectAt b) h)
         | VArr xs \<Rightarrow> Inr (set_proto a AnArray h)
         | VNull \<Rightarrow> Inr (set_proto a NoPrototype h)
         | _ \<Rightarrow> Inr h)
      else Inr (set_own a k v h))"

subsection \<open>Writing a value as JSON\<close>

text \<open>
  The value \<open>JSON.stringify\<close> writes for a value in memory: the own properties of an object in
  their order, whatever its prototype. \<open>None\<close> is the TypeError it throws when an object lies
  within itself; \<open>stack\<close> are the objects being written.
\<close>

function to_json :: "heap \<Rightarrow> nat list \<Rightarrow> jsval \<Rightarrow> json option" where
  "to_json h stack VNull = Some JNull"
| "to_json h stack (VBool b) = Some (JBool b)"
| "to_json h stack (VNum n) = Some (JNum n)"
| "to_json h stack (VStr s) = Some (JStr s)"
| "to_json h stack (VArr xs) = map_option JArr (those (map (to_json h stack) xs))"
| "to_json h stack (VRef a) =
     (if a \<in> set stack then None
      else if length h \<le> a then Some (JObj [])
      else map_option JObj
             (those (map (\<lambda>p. map_option (Pair (fst p)) (to_json h (a # stack) (snd p)))
                      (own (h ! a)))))"
  by pat_completeness auto
termination
proof (relation "measures [\<lambda>(h, stack, v). card ({..<length h} - set stack),
                           \<lambda>(h, stack, v). size v]")
  fix h :: heap and stack :: "nat list" and xs :: "jsval list" and x :: jsval
  assume "x \<in> set xs"
  then have "size x < size (VArr xs)"
    by (simp add: less_Suc_eq_le size_list_estimation')
  then show "((h, stack, x), h, stack, VArr xs)
               \<in> measures [\<lambda>(h, stack, v). card ({..<length h} - set stack),
                             \<lambda>(h, stack, v). size v]"
    by simp
next
  fix h :: heap and stack :: "nat list" and a :: nat and p :: "string \<times> jsval"
  assume a: "a \<notin> set stack" "\<not> length h \<le> a"
  have "a \<in> {..<length h} - set stack"
    using a by simp
  moreover have "a \<notin> {..<length h} - set (a # stack)"
    by simp
  moreover have "{..<length h} - set (a # stack) \<subseteq> {..<length h} - set stack"
    by (simp add: subset_iff)
  ultimately have "{..<length h} - set (a # stack) \<subset> {..<length h} - set stack"
    by blast
  then have "card ({..<length h} - set (a # stack)) < card ({..<length h} - set stack)"
    by (intro psubset_card_mono) simp_all
  then show "((h, a # stack, snd p), h, stack, VRef a)
               \<in> measures [\<lambda>(h, stack, v). card ({..<length h} - set stack),
                             \<lambda>(h, stack, v). size v]"
    by (simp del: set_simps Diff_insert)
qed simp

definition fields_to_json ::
  "heap \<Rightarrow> nat list \<Rightarrow> (string \<times> jsval) list \<Rightarrow> (string \<times> json) list option" where
  "fields_to_json h stack ps =
     those (map (\<lambda>p. map_option (Pair (fst p)) (to_json h stack (snd p))) ps)"

section \<open>The content store (js/content.js)\<close>

subsection \<open>The in-memory snapshot\<close>

text \<open>
  \<open>_data\<close> is the object that \<open>_ensureStructure\<close> returns. When the parsed value was an
  array, \<open>_ensureStructure\<close> keeps that array and hangs the four collections on it as named
  properties, so the object is an optional list of indexed elements together with its named
  properties. The module holds it in the variable \<open>_data\<close>; it is kept apart from the heap, and
  its properties are values in memory: the entries of a collection that are objects are
  references.
\<close>

record 'v snapshot =
  indexed :: "'v list option"
  props :: "(string \<times> 'v) list"

definition get_prop :: "'v snapshot \<Rightarrow> string \<Rightarrow> 'v option" where
  "get_prop obj k = map_of (props obj) k"

definition set_prop :: "string \<Rightarrow> 'v \<Rightarrow> 'v snapshot \<Rightarrow> 'v snapshot" where
  "set_prop k v obj = obj\<lparr>props := put k v (props obj)\<rparr>"

text \<open>
  \<open>JSON.stringify\<close> of the in-memory object: an array is written as its indexed elements only,
  its named properties are not part of the output. \<open>None\<close> is the TypeError of a circular
  structure.
\<close>

definition serialize :: "heap \<Rightarrow> jsval snapshot \<Rightarrow> json option" where
  "serialize h obj =
     (case indexed obj of
        Some xs \<Rightarrow> to_json h [] (VArr xs)
      | None \<Rightarrow> map_option JObj (fields_to_json h [] (props obj)))"

text \<open>
  \<open>_ensureStructure(obj)\<close>, applied to a value that has just been parsed (every call in the
  module is of this kind, or is \<open>_ensureStructure({})\<close>); this is where the model places the
  parsed value in memory. Anything that is falsy or not of type object becomes \<open>{}\<close>; an array
  has type object and is kept. Then each collection that is not an array is set to \<open>[]\<close>.
\<close>

definition ensure_array :: "string \<Rightarrow> jsval snapshot \<Rightarrow> jsval snapshot" where
  "ensure_array k obj = (if \<not> isArray (get_prop obj k) then set_prop k (VArr []) obj else obj)"

fun as_object :: "json \<Rightarrow> heap \<Rightarrow> jsval snapshot \<times> heap" where
  "as_object (JObj ps) h =
     (case alloc_fields ps h of (fs, h') \<Rightarrow> (\<lparr>indexed = None, props = fs\<rparr>, h'))"
| "as_object (JArr xs) h =
     (case alloc_list xs h of (vs, h') \<Rightarrow> (\<lparr>indexed = Some vs, props = []\<rparr>, h'))"
| "as_object v h = (\<lparr>indexed = None, props = []\<rparr>, h)"

definition ensureStructure :: "json \<Rightarrow> heap \<Rightarrow> jsval snapshot \<times> heap" where
  "ensureStructure obj h =
     (case as_object obj h of
        (d, h') \<Rightarrow>
          (ensure_array ''streams'' (ensure_array ''posts''
             (ensure_array ''screenshots'' (ensure_array ''videos'' d))), h'))"

text \<open>A snapshot is structurally valid when all four collections are arrays.\<close>

definition structurally_valid :: "jsval snapshot \<Rightarrow> bool" where
  "structurally_valid obj =
     (isArray (get_prop obj ''videos'') \<and> isArray (get_prop obj ''screenshots'') \<and>
      isArray (get_prop obj ''posts'') \<and> isArray (get_prop obj ''streams''))"

subsection \<open>State and persistence\<close>

text \<open>
  The module's state: the heap of objects, the cache \<open>_data\<close> (\<open>None\<close> is \<open>null\<close>), the two
  localStorage items it uses, whether \<open>localStorage.setItem\<close> currently throws (storage full
  or disabled), and whether the debounce timer of the cloud sync is armed.
\<close>

record store =
  heap :: heap
  data :: "jsval snapshot option"
  content_item :: "document option"
  cloud_json_url :: "string option"
  storage_full :: bool
  cloud_sync_timer :: bool

text \<open>
  \<open>_save()\<close>: the write is inside try/catch, so a failure of \<open>JSON.stringify\<close> or of \<open>setItem\<close>
  is only logged; then the sync is scheduled.
\<close>

definition save :: "store \<Rightarrow> store" where
  "save st =
     (let written =
            (case (case data st of None \<Rightarrow> Some JNull | Some obj \<Rightarrow> serialize (heap st) obj) of
               None \<Rightarrow> st
             | Some v \<Rightarrow>
                 if storage_full st then st else st\<lparr>content_item := Some (JSON_stringify v)\<rparr>)
      in written\<lparr>cloud_sync_timer := True\<rparr>)"

text \<open>
  \<open>_load()\<close>: returns the parsed item (\<open>true\<close> in the source, with \<open>_data\<close> set to the value), or
  \<open>None\<close> (\<open>false\<close>) when the item is missing, empty or does not parse. The only caller passes
  \<open>_data\<close> straight to \<open>_ensureStructure\<close>, which is where the model stores it.
\<close>

definition load :: "store \<Rightarrow> json option" where
  "load st = (case content_item st of None \<Rightarrow> None | Some raw \<Rightarrow> JSON_parse raw)"

subsection \<open>Bootstrap\<close>

text \<open>How a promise handed to the caller ends.\<close>

datatype 'a settled = Pending | Fulfilled 'a | RejectedWith failure

text \<open>
  What \<open>fetch\<close> does for one request: the promise rejects, or there is a response with its
  \<open>ok\<close> flag and its body.
\<close>

datatype fetch_outcome = FetchRejects | Response bool document

record init_env =
  config_fetch :: fetch_outcome
  cloud_fetch :: fetch_outcome
  seed_fetch :: fetch_outcome

text \<open>\<open>r.json()\<close>\<close>

definition response_json :: "document \<Rightarrow> failure + json" where
  "response_json body = (case JSON_parse body of None \<Rightarrow> Inl SyntaxError | Some v \<Rightarrow> Inr v)"

text \<open>\<open>fetch(path).then(function (r) { return r.ok ? r.json() : {}; })\<close>\<close>

definition fetch_json_or_empty :: "fetch_outcome \<Rightarrow> failure + json" where
  "fetch_json_or_empty f =
     (case f of FetchRejects \<Rightarrow> Inl NetworkFailure
      | Response ok body \<Rightarrow> if ok then response_json body else Inr (JObj []))"

text \<open>Step 2a: the mirror; a response that is not ok throws.\<close>

definition fetch_cloud :: "fetch_outcome \<Rightarrow> failure + json" where
  "fetch_cloud f =
     (case f of FetchRejects \<Rightarrow> Inl NetworkFailure
      | Response ok body \<Rightarrow> if \<not> ok then Inl CloudHttpError else response_json body)"

text \<open>\<open>config && config.cloudBackupUrl\<close>: a falsy config is the result, else its property.\<close>

fun cloudBackupUrl :: "json \<Rightarrow> json option" where
  "cloudBackupUrl (JObj ps) = map_of ps ''cloudBackupUrl''"
| "cloudBackupUrl v = (if truthy (Some v) then None else Some v)"

text \<open>\<open>(config && config.cloudBackupUrl) || localStorage.getItem(CLOUD_JSON_KEY)\<close>, as a condition.\<close>

definition has_cloud_url :: "json \<Rightarrow> store \<Rightarrow> bool" where
  "has_cloud_url config st =
     (truthy (cloudBackupUrl config) \<or>
      (case cloud_json_url st of None \<Rightarrow> False | Some u \<Rightarrow> u \<noteq> []))"

text \<open>The promise chain of \<open>init\<close> up to its last \<open>then\<close>/\<open>catch\<close> pair.\<close>

definition fetch_content :: "init_env \<Rightarrow> store \<Rightarrow> failure + json" where
  "fetch_content env st =
     (case fetch_json_or_empty (config_fetch env) of
        Inl e \<Rightarrow> Inl e
      | Inr config \<Rightarrow>
          if has_cloud_url config st then
            (case fetch_cloud (cloud_fetch env) of
               Inr v \<Rightarrow> Inr v
             | Inl err \<Rightarrow> fetch_json_or_empty (seed_fetch env))
          else fetch_json_or_empty (seed_fetch env))"

text \<open>\<open>_data = _ensureStructure(json)\<close>\<close>

definition set_data :: "json \<Rightarrow> store \<Rightarrow> jsval snapshot \<times> store" where
  "set_data v st =
     (case ensureStructure v (heap st) of (d, h') \<Rightarrow> (d, st\<lparr>heap := h', data := Some d\<rparr>))"

definition init :: "init_env \<Rightarrow> store \<Rightarrow> jsval snapshot settled \<times> store" where
  "init env st =
     (case load st of
        Some loaded \<Rightarrow>
          (case set_data loaded st of (d, st') \<Rightarrow> (Fulfilled d, st'))
      | None \<Rightarrow>
          (case fetch_content env st of
             Inr v \<Rightarrow>
               (case set_data v st of (d, st') \<Rightarrow> (Fulfilled d, save st'))
           | Inl err \<Rightarrow>
               (case set_data (JObj []) st of (d, st') \<Rightarrow> (Fulfilled d, save st'))))"

subsection \<open>Reading\<close>

text \<open>
  \<open>TYPE_MAP[type]\<close>. Besides its four own keys the object literal inherits the members of
  \<open>Object.prototype\<close>, whose values are truthy but name no collection.
\<close>

datatype type_lookup = Plural string | Inherited | Unknown

definition TYPE_MAP :: "string \<Rightarrow> type_lookup" where
  "TYPE_MAP t =
     (if t = ''video'' then Plural ''videos''
      else if t = ''screenshot'' then Plural ''screenshots''
      else if t = ''post'' then Plural ''posts''
      else if t = ''stream'' then Plural ''streams''
      else if t \<in> set [''constructor'', ''hasOwnProperty'', ''isPrototypeOf'',
                ''propertyIsEnumerable'', ''toLocaleString'', ''toString'', ''valueOf'',
                ''__defineGetter__'', ''__defineSetter__'', ''__lookupGetter__'',
                ''__lookupSetter__'', ''__proto__'']
      then Inherited
      else Unknown)"

text \<open>
  \<open>(_data[key] || []).slice()\<close>: a copy of the array, holding the same entries. A non-empty
  string has a \<open>slice\<close> too; the other truthy values have none.
\<close>

fun slice_or_empty :: "jsval option \<Rightarrow> failure + jsval" where
  "slice_or_empty (Some (VArr xs)) = Inr (VArr xs)"
| "slice_or_empty (Some (VStr s)) = Inr (if s = [] then VArr [] else VStr s)"
| "slice_or_empty v = (if truthy_val v then Inl TypeError else Inr (VArr []))"

text \<open>
  \<open>getAll(type)\<close>. For an inherited name the key is a built-in function or object; the snapshot
  is taken to have no property named by its string conversion, so the result is \<open>[]\<close>.
\<close>

definition getAll :: "string \<Rightarrow> store \<Rightarrow> failure + jsval" where
  "getAll t st =
     (case TYPE_MAP t of
        Unknown \<Rightarrow> Inr (VArr [])
      | Inherited \<Rightarrow> Inr (VArr [])
      | Plural key \<Rightarrow>
          (case data st of None \<Rightarrow> Inr (VArr []) | Some d \<Rightarrow> slice_or_empty (get_prop d key)))"

subsection \<open>Writing\<close>

text \<open>
  The string that a value used as a property name stands for (\<open>TYPE_MAP[entry.type]\<close> converts
  \<open>entry.type\<close> to a string); an object is taken to convert as a plain object does.
\<close>

definition digit :: "nat \<Rightarrow> char" where
  "digit d = char_of (48 + d)"

function decimal :: "nat \<Rightarrow> string" where
  "decimal n = (if n < 10 then [digit n] else decimal (n div 10) @ [digit (n mod 10)])"
  by pat_completeness auto
termination
  by (relation "measure id") auto

fun join_strings :: "string list \<Rightarrow> string" where
  "join_strings [] = []"
| "join_strings [s] = s"
| "join_strings (s # t # ss) = s @ '','' @ join_strings (t # ss)"

fun to_string :: "jsval \<Rightarrow> string" and element_string :: "jsval \<Rightarrow> string" where
  "to_string VNull = ''null''"
| "to_string (VBool b) = (if b then ''true'' else ''false'')"
| "to_string (VNum n) = (if n < 0 then ''-'' @ decimal (nat (- n)) else decimal (nat n))"
| "to_string (VStr s) = s"
| "to_string (VArr xs) = join_strings (map element_string xs)"
| "to_string (VRef a) = ''[object Object]''"
| "element_string VNull = []"
| "element_string (VBool b) = (if b then ''true'' else ''false'')"
| "element_string (VNum n) = (if n < 0 then ''-'' @ decimal (nat (- n)) else decimal (nat n))"
| "element_string (VStr s) = s"
| "element_string (VArr xs) = join_strings (map element_string xs)"
| "element_string (VRef a) = ''[object Object]''"

text \<open>What \<open>add\<close> reads from its surroundings: \<open>_generateId()\<close> and \<open>_todayISO()\<close>.\<close>

record add_env =
  generated_id :: string
  today_iso :: string

text \<open>\<open>if (!entry.id) entry.id = ...\<close>, for the entry at \<open>a\<close>\<close>

definition default_field :: "string \<Rightarrow> string \<Rightarrow> nat \<Rightarrow> heap \<Rightarrow> heap" where
  "default_field k v a h =
     (if \<not> truthy_val (read_prop h (VRef a) k) then set_own a k (VStr v) h else h)"

text \<open>\<open>if (!_data) _data = _ensureStructure({})\<close>\<close>

definition data_or_empty :: "store \<Rightarrow> jsval snapshot" where
  "data_or_empty st =
     (case data st of None \<Rightarrow> fst (ensureStructure (JObj []) (heap st)) | Some d \<Rightarrow> d)"

text \<open>
  \<open>add(entry)\<close>. Only an object can have a truthy \<open>type\<close>. \<open>None\<close> is the \<open>null\<close> it returns. The
  entry itself gets the missing \<open>id\<close> and \<open>date\<close>, and it is the entry itself that is pushed
  and returned. With an inherited name, \<open>_data[key]\<close> is \<open>undefined\<close> (the snapshot again taken
  to have no property of that name) and \<open>push\<close> throws, as it does when the collection is not
  an array; \<open>_data\<close> has been initialised and the entry completed by then.
\<close>

definition add :: "add_env \<Rightarrow> jsval \<Rightarrow> store \<Rightarrow> (failure + jsval option) \<times> store" where
  "add env entry st =
     (case entry of
        VRef a \<Rightarrow>
          (case read_prop (heap st) entry ''type'' of
             None \<Rightarrow> (Inr None, st)
           | Some t \<Rightarrow>
               if \<not> truthy_val (Some t) then (Inr None, st)
               else
                 (case TYPE_MAP (to_string t) of
                    Unknown \<Rightarrow> (Inr None, st)
                  | Inherited \<Rightarrow>
                      (Inl TypeError,
                       st\<lparr>data := Some (data_or_empty st),
                          heap := default_field ''date'' (today_iso env) a
                                    (default_field ''id'' (generated_id env) a (heap st))\<rparr>)
                  | Plural key \<Rightarrow>
                      (let d = data_or_empty st;
                           h' = default_field ''date'' (today_iso env) a
                                  (default_field ''id'' (generated_id env) a (heap st))
                       in case get_prop d key of
                            Some (VArr xs) \<Rightarrow>
                              (Inr (Some entry),
                               save (st\<lparr>data := Some (set_prop key (VArr (xs @ [entry])) d),
                                        heap := h'\<rparr>))
                          | _ \<Rightarrow> (Inl TypeError, st\<lparr>data := Some d, heap := h'\<rparr>))))
      | _ \<Rightarrow> (Inr None, st))"

text \<open>
  \<open>Object.keys(updatedFields || {})\<close> with the value each key has in \<open>updatedFields\<close>: the own
  properties of an object, the elements of an array and the characters of a string under
  their indices; any other value has none.
\<close>

fun own_entries :: "heap \<Rightarrow> jsval \<Rightarrow> (string \<times> jsval) list" where
  "own_entries h (VRef b) = own (obj_at h b)"
| "own_entries h (VArr xs) = zip (map decimal [0..<length xs]) xs"
| "own_entries h (VStr s) = zip (map decimal [0..<length s]) (map (\<lambda>c. VStr [c]) s)"
| "own_entries h v = []"

text \<open>
  The merge loop of \<open>update\<close> on the entry at \<open>a\<close>: for each key of \<open>updatedFields\<close>, in order,
  \<open>arr[i][key] = updatedFields[key]\<close>. When an assignment throws, the ones before it have been
  made.
\<close>

fun assign_fields ::
  "string list \<Rightarrow> (string \<times> jsval) list \<Rightarrow> nat \<Rightarrow> heap \<Rightarrow> failure option \<times> heap" where
  "assign_fields [] updatedFields a h = (None, h)"
| "assign_fields (f # fs) updatedFields a h =
     (case map_of updatedFields f of
        None \<Rightarrow> assign_fields fs updatedFields a h
      | Some v \<Rightarrow>
          (case assign a f v h of
             Inl err \<Rightarrow> (Some err, h)
           | Inr h' \<Rightarrow> assign_fields fs updatedFields a h'))"

text \<open>
  The inner loop over one collection, up to the entry it finds. \<open>arr[i].id\<close> throws a TypeError
  when the element is \<open>null\<close>; an element that is not an object has no \<open>id\<close>. The result is
  the address of the first entry with the id, or \<open>None\<close> when no element has it.
\<close>

fun find_entry :: "heap \<Rightarrow> string \<Rightarrow> jsval list \<Rightarrow> failure + nat option" where
  "find_entry h ident [] = Inr None"
| "find_entry h ident (VNull # xs) = Inl TypeError"
| "find_entry h ident (VRef a # xs) =
     (if read_prop h (VRef a) ''id'' = Some (VStr ident) then Inr (Some a)
      else find_entry h ident xs)"
| "find_entry h ident (x # xs) = find_entry h ident xs"

text \<open>
  The outer loop over the plural keys. Every value \<open>_data\<close> gets has passed
  \<open>_ensureStructure\<close>, so each of the four properties is an array; a missing or falsy one is
  skipped by \<open>if (!arr) continue\<close>, and the model skips any other value as well.
\<close>

definition pluralKeys :: "string list" where
  "pluralKeys = [''videos'', ''screenshots'', ''posts'', ''streams'']"

fun find_in_collections ::
  "heap \<Rightarrow> string list \<Rightarrow> string \<Rightarrow> jsval snapshot \<Rightarrow> failure + nat option" where
  "find_in_collections h [] ident d = Inr None"
| "find_in_collections h (key # keys) ident d =
     (case get_prop d key of
        Some (VArr xs) \<Rightarrow>
          (case find_entry h ident xs of
             Inl err \<Rightarrow> Inl err
           | Inr (Some a) \<Rightarrow> Inr (Some a)
           | Inr None \<Rightarrow> find_in_collections h keys ident d)
      | _ \<Rightarrow> find_in_collections h keys ident d)"

text \<open>
  \<open>update(id, updatedFields)\<close>: the result \<open>Inr None\<close> is the \<open>null\<close> it returns. The entry is
  changed where it is, in the heap; \<open>_data\<close> and its collections are not touched. Nothing is
  saved when the merge throws.
\<close>

definition update :: "string \<Rightarrow> jsval \<Rightarrow> store \<Rightarrow> (failure + jsval option) \<times> store" where
  "update ident updatedFields st =
     (case data st of
        None \<Rightarrow> (Inr None, st)
      | Some d \<Rightarrow>
          if ident = [] then (Inr None, st)
          else
            (case find_in_collections (heap st) pluralKeys ident d of
               Inl err \<Rightarrow> (Inl err, st)
             | Inr None \<Rightarrow> (Inr None, st)
             | Inr (Some a) \<Rightarrow>
                 (let given = own_entries (heap st) updatedFields
                  in case assign_fields (map fst given) given a (heap st) of
                       (Some err, h') \<Rightarrow> (Inl err, st\<lparr>heap := h'\<rparr>)
                     | (None, h') \<Rightarrow> (Inr (Some (VRef a)), save (st\<lparr>heap := h'\<rparr>)))))"

subsection \<open>Import and export\<close>

text \<open>
  \<open>exportJSON()\<close>: the content of the file it offers for download; \<open>Inr None\<close> when it returns
  early because \<open>_data\<close> is \<open>null\<close>, and the TypeError of \<open>JSON.stringify\<close> is not caught here.
\<close>

definition exportJSON :: "store \<Rightarrow> failure + document option" where
  "exportJSON st =
     (case data st of
        None \<Rightarrow> Inr None
      | Some d \<Rightarrow>
          (case serialize (heap st) d of
             None \<Rightarrow> Inl TypeError
           | Some v \<Rightarrow> Inr (Some (JSON_stringify v))))"

text \<open>The file handed to \<open>importJSON\<close>: the FileReader fails on it, or delivers its text.\<close>

datatype input_file = Unreadable | Readable document

definition importJSON :: "input_file option \<Rightarrow> store \<Rightarrow> jsval snapshot settled \<times> store" where
  "importJSON f st =
     (case f of
        None \<Rightarrow> (RejectedWith NoFileProvided, st)
      | Some Unreadable \<Rightarrow> (RejectedWith FailedToReadFile, st)
      | Some (Readable bytes) \<Rightarrow>
          (case JSON_parse bytes of
             None \<Rightarrow> (RejectedWith InvalidJSONFile, st)
           | Some v \<Rightarrow> (case set_data v st of (d, st') \<Rightarrow> (Fulfilled d, save st'))))"

section \<open>The messaging gateway (the EmailJS module)\<close>

subsection \<open>Strings\<close>

text \<open>
  The gateway measures and cuts strings, and recognises its own errors by phrases in Cyrillic,
  so its strings are what JavaScript strings are: sequences of UTF-16 code units.
\<close>

type_synonym jsstring = "16 word list"

definition ascii :: "string \<Rightarrow> jsstring" where
  "ascii s = map (\<lambda>c. of_nat (of_char c)) s"

text \<open>The code units that \<open>trim\<close> strips: white space and line terminators.\<close>

definition is_space :: "16 word \<Rightarrow> bool" where
  "is_space c =
     (c \<in> set [0x0009, 0x000A, 0x000B, 0x000C, 0x000D, 0x0020, 0x00A0, 0x1680, 0x2028, 0x2029,
               0x202F, 0x205F, 0x3000, 0xFEFF]
      \<or> (0x2000 \<le> c \<and> c \<le> 0x200A))"

definition trim :: "jsstring \<Rightarrow> jsstring" where
  "trim s = rev (dropWhile is_space (rev (dropWhile is_space s)))"

text \<open>\<open>s.indexOf(m) !== -1\<close>\<close>

fun starts_with :: "jsstring \<Rightarrow> jsstring \<Rightarrow> bool" where
  "starts_with s [] = True"
| "starts_with [] (c # m) = False"
| "starts_with (b # s) (c # m) = (b = c \<and> starts_with s m)"

fun contains :: "jsstring \<Rightarrow> jsstring \<Rightarrow> bool" where
  "contains [] m = (m = [])"
| "contains (b # s) m = (starts_with (b # s) m \<or> contains s m)"

subsection \<open>The texts of the module\<close>

text \<open>
  The messages of the errors the module creates, the phrases by which its \<open>catch\<close> handler
  recognises them, and the text sent to the relay when no image is attached. Code units outside
  ASCII are written as numbers.
\<close>

definition subject_prompt :: jsstring where
  "subject_prompt =
     [0x041D, 0x0430, 0x043F, 0x0438, 0x0448, 0x0438, 0x0020, 0x0442, 0x0435, 0x043C,
      0x0430, 0x0020, 0x043D, 0x0430, 0x0020, 0x0441, 0x044A, 0x043E, 0x0431, 0x0449,
      0x0435, 0x043D, 0x0438, 0x0435, 0x0442, 0x043E] @
     ascii ''! / Please enter a subject!''"

definition message_prompt :: jsstring where
  "message_prompt =
     [0x041D, 0x0430, 0x043F, 0x0438, 0x0448, 0x0438, 0x0020, 0x0441, 0x044A, 0x043E,
      0x0431, 0x0449, 0x0435, 0x043D, 0x0438, 0x0435] @
     ascii ''! / Please enter a message!''"

definition not_configured_text :: jsstring where
  "not_configured_text =
     ascii ''EmailJS '' @
     [0x043D, 0x0435, 0x0020, 0x0435, 0x0020, 0x043D, 0x0430, 0x0441, 0x0442, 0x0440,
      0x043E, 0x0435, 0x043D, 0x0021, 0x0020, 0x041E, 0x0442, 0x0438, 0x0434, 0x0438,
      0x0020, 0x0432, 0x0020, 0x041D, 0x0430, 0x0441, 0x0442, 0x0440, 0x043E, 0x0439,
      0x043A, 0x0438, 0x0020, 0x0438, 0x0020, 0x0432, 0x044A, 0x0432, 0x0435, 0x0434,
      0x0438, 0x0020, 0x0434, 0x0430, 0x043D, 0x043D, 0x0438, 0x0442, 0x0435] @
     ascii ''. / EmailJS is not configured! Go to Settings and enter your credentials.''"

definition limit_text :: jsstring where
  "limit_text =
     [0x0414, 0x043E, 0x0441, 0x0442, 0x0438, 0x0433, 0x043D, 0x0430, 0x0020, 0x043B,
      0x0438, 0x043C, 0x0438, 0x0442, 0x0430, 0x0020, 0x0437, 0x0430, 0x0020, 0x0434,
      0x043D, 0x0435, 0x0441, 0x0021, 0x0020, 0x041E, 0x0441, 0x0442, 0x0430, 0x0432,
      0x0430, 0x0442, 0x0020, 0x0030, 0x0020, 0x0441, 0x044A, 0x043E, 0x0431, 0x0449,
      0x0435, 0x043D, 0x0438, 0x044F] @
     ascii ''. / Daily limit reached!''"

definition sdk_load_text :: jsstring where
  "sdk_load_text =
     ascii ''EmailJS SDK '' @
     [0x043D, 0x0435, 0x0020, 0x043C, 0x043E, 0x0436, 0x0435, 0x0020, 0x0434, 0x0430,
      0x0020, 0x0441, 0x0435, 0x0020, 0x0437, 0x0430, 0x0440, 0x0435, 0x0434, 0x0438,
      0x002E, 0x0020, 0x041F, 0x0440, 0x043E, 0x0432, 0x0435, 0x0440, 0x0438, 0x0020,
      0x0438, 0x043D, 0x0442, 0x0435, 0x0440, 0x043D, 0x0435, 0x0442, 0x0020, 0x0432,
      0x0440, 0x044A, 0x0437, 0x043A, 0x0430, 0x0442, 0x0430] @
     ascii ''! / Failed to load EmailJS SDK. Check your internet connection!''"

definition sdk_unavailable_text :: jsstring where
  "sdk_unavailable_text =
     ascii ''EmailJS SDK '' @
     [0x043D, 0x0435, 0x0020, 0x0435, 0x0020, 0x043D, 0x0430, 0x043B, 0x0438, 0x0447,
      0x0435, 0x043D, 0x002E, 0x0020, 0x041F, 0x0440, 0x0435, 0x0437, 0x0430, 0x0440,
      0x0435, 0x0434, 0x0438, 0x0020, 0x0441, 0x0442, 0x0440, 0x0430, 0x043D, 0x0438,
      0x0446, 0x0430, 0x0442, 0x0430] @
     ascii ''! / EmailJS SDK not available. Please reload the page!''"

definition generic_bg :: jsstring where
  "generic_bg =
     [0x041D, 0x0435, 0x0449, 0x043E, 0x0020, 0x043D, 0x0435, 0x0020, 0x0435, 0x0020,
      0x043D, 0x0430, 0x0440, 0x0435, 0x0434, 0x002E, 0x0020, 0x041E, 0x043F, 0x0438,
      0x0442, 0x0430, 0x0439, 0x0020, 0x043F, 0x0430, 0x043A] @
     ascii ''!''"

definition generic_en :: jsstring where
  "generic_en =
     ascii ''Something went wrong. Please try again!''"

definition no_image :: jsstring where
  "no_image =
     [0x0411, 0x0435, 0x0437, 0x0020, 0x0441, 0x043D, 0x0438, 0x043C, 0x043A, 0x0430] @
     ascii '' / No image attached''"

definition marker_not_configured :: jsstring where
  "marker_not_configured =
     ascii ''EmailJS '' @
     [0x043D, 0x0435, 0x0020, 0x0435, 0x0020, 0x043D, 0x0430, 0x0441, 0x0442, 0x0440,
      0x043E, 0x0435, 0x043D]"

definition marker_limit :: jsstring where
  "marker_limit =
     [0x0414, 0x043E, 0x0441, 0x0442, 0x0438, 0x0433, 0x043D, 0x0430, 0x0020, 0x043B,
      0x0438, 0x043C, 0x0438, 0x0442, 0x0430]"

definition marker_sdk_load :: jsstring where
  "marker_sdk_load =
     ascii ''SDK '' @
     [0x043D, 0x0435, 0x0020, 0x043C, 0x043E, 0x0436, 0x0435, 0x0020, 0x0434, 0x0430,
      0x0020, 0x0441, 0x0435, 0x0020, 0x0437, 0x0430, 0x0440, 0x0435, 0x0434, 0x0438]"

definition marker_sdk_unavailable :: jsstring where
  "marker_sdk_unavailable =
     ascii ''SDK '' @
     [0x043D, 0x0435, 0x0020, 0x0435, 0x0020, 0x043D, 0x0430, 0x043B, 0x0438, 0x0447,
      0x0435, 0x043D]"

definition marker_subject :: jsstring where
  "marker_subject =
     [0x041D, 0x0430, 0x043F, 0x0438, 0x0448, 0x0438, 0x0020, 0x0442, 0x0435, 0x043C,
      0x0430]"

definition marker_message :: jsstring where
  "marker_message =
     [0x041D, 0x0430, 0x043F, 0x0438, 0x0448, 0x0438, 0x0020, 0x0441, 0x044A, 0x043E,
      0x0431, 0x0449, 0x0435, 0x043D, 0x0438, 0x0435]"

subsection \<open>Errors and the relay\<close>

text \<open>
  A value that is thrown or rejected with, as far as the module reads it: its \<open>message\<close> and
  its \<open>text\<close> (the relay's status objects carry a \<open>text\<close>), each possibly missing.
\<close>

record error_object =
  err_message :: "jsstring option"
  err_text :: "jsstring option"

text \<open>\<open>new Error(m)\<close>\<close>

definition Error :: "jsstring \<Rightarrow> error_object" where
  "Error m = \<lparr>err_message = Some m, err_text = None\<rparr>"

record relay_response =
  status :: int
  status_text :: jsstring

datatype relay_outcome = Delivered relay_response | Failed error_object

text \<open>The parameters handed to \<open>emailjs.send\<close>.\<close>

record template_params =
  param_subject :: jsstring
  param_message :: jsstring
  param_date :: jsstring
  param_image_url :: jsstring

datatype 'a promise = Resolves 'a | Rejects error_object

subsection \<open>History and state\<close>

record history_record =
  date :: jsstring
  dateKey :: jsstring
  subject :: jsstring
  preview :: jsstring

text \<open>
  The localStorage item of the history: missing (or empty), text that does not parse or does not
  parse to an array, or an array of records.
\<close>

datatype history_item = NoItem | Unusable | Records "history_record list"

text \<open>
  The module's state: the three credentials and the history item in localStorage, whether
  \<open>localStorage.setItem\<close> throws, the flag \<open>sdkLoaded\<close>, and what has gone out to the network:
  the number of script elements appended to load the SDK and the calls of \<open>emailjs.send\<close>, oldest
  first. (\<open>sdkLoading\<close> is false whenever no \<open>send\<close> is under way.)
\<close>

record mail_store =
  service_id :: "jsstring option"
  template_id :: "jsstring option"
  public_key :: "jsstring option"
  sent_history :: history_item
  mail_storage_full :: bool
  sdkLoaded :: bool
  script_requests :: nat
  relay_calls :: "template_params list"

text \<open>
  What one \<open>send\<close> meets: the clock at its three readings, whether the SDK script loads and
  defines \<open>emailjs\<close>, what the relay answers, and the exception \<open>setItem\<close> throws when the
  storage is full.
\<close>

record send_env =
  now_display :: jsstring
  check_day :: jsstring
  script_loads :: bool
  emailjs_defined :: bool
  relay :: relay_outcome
  saved_display :: jsstring
  saved_day :: jsstring
  storage_error :: error_object

definition MAX_MESSAGES_PER_DAY :: int where
  "MAX_MESSAGES_PER_DAY = 10"

text \<open>\<open>readArray(STORAGE_KEYS.SENT_HISTORY)\<close>\<close>

definition readArray :: "mail_store \<Rightarrow> history_record list" where
  "readArray st = (case sent_history st of Records rs \<Rightarrow> rs | _ \<Rightarrow> [])"

text \<open>\<open>writeArray\<close>: \<open>None\<close> when \<open>setItem\<close> throws.\<close>

definition writeArray :: "history_record list \<Rightarrow> mail_store \<Rightarrow> mail_store option" where
  "writeArray arr st = (if mail_storage_full st then None else Some (st\<lparr>sent_history := Records arr\<rparr>))"

text \<open>The counting loop of \<open>countSentToday\<close>, \<open>today\<close> being \<open>todayKey()\<close>.\<close>

fun count_with_key :: "jsstring \<Rightarrow> history_record list \<Rightarrow> nat" where
  "count_with_key today [] = 0"
| "count_with_key today (r # history) =
     (if dateKey r = today then Suc (count_with_key today history) else count_with_key today history)"

definition countSentToday :: "jsstring \<Rightarrow> mail_store \<Rightarrow> nat" where
  "countSentToday today st = count_with_key today (readArray st)"

definition getRemainingToday :: "jsstring \<Rightarrow> mail_store \<Rightarrow> int" where
  "getRemainingToday today st =
     (let sentToday = countSentToday today st;
          remaining = MAX_MESSAGES_PER_DAY - int sentToday
      in if remaining > 0 then remaining else 0)"

text \<open>\<open>saveToHistory(subject, message)\<close>, with the clock read as \<open>display\<close> and \<open>today\<close>.\<close>

definition make_preview :: "jsstring \<Rightarrow> jsstring" where
  "make_preview message = (if length message > 50 then take 50 message @ ascii ''...'' else message)"

definition saveToHistory ::
  "jsstring \<Rightarrow> jsstring \<Rightarrow> jsstring \<Rightarrow> jsstring \<Rightarrow> mail_store \<Rightarrow> mail_store option" where
  "saveToHistory subj message display today st =
     writeArray
       (\<lparr>date = display, dateKey = today, subject = subj, preview = make_preview message\<rparr>
          # readArray st) st"

text \<open>\<open>!!(serviceID && templateID && publicKey)\<close>\<close>

definition present :: "jsstring option \<Rightarrow> bool" where
  "present v = (case v of None \<Rightarrow> False | Some s \<Rightarrow> s \<noteq> [])"

definition isConfigured :: "mail_store \<Rightarrow> bool" where
  "isConfigured st = (present (service_id st) \<and> present (template_id st) \<and> present (public_key st))"

text \<open>The \<open>catch\<close> handler at the end of \<open>send\<close>: the error it throws for the error it caught.\<close>

definition is_own_error :: "error_object \<Rightarrow> bool" where
  "is_own_error e =
     (case err_message e of
        None \<Rightarrow> False
      | Some m \<Rightarrow>
          m \<noteq> [] \<and>
          (contains m marker_not_configured \<or> contains m marker_limit \<or>
           contains m marker_sdk_load \<or> contains m marker_sdk_unavailable \<or>
           contains m marker_subject \<or> contains m marker_message))"

definition detail_of :: "error_object \<Rightarrow> jsstring" where
  "detail_of e =
     (if present (err_text e) then ascii '' ('' @ the (err_text e) @ ascii '')''
      else if present (err_message e) then ascii '' ('' @ the (err_message e) @ ascii '')''
      else [])"

definition send_failure :: "error_object \<Rightarrow> error_object" where
  "send_failure e =
     (if is_own_error e then e
      else Error (generic_bg @ detail_of e @ ascii '' / '' @ generic_en @ detail_of e))"

text \<open>
  \<open>init()\<close> as \<open>send\<close> awaits it: nothing to do when the SDK is loaded; otherwise a script element
  is appended, and the promise resolves on \<open>onload\<close> and rejects on \<open>onerror\<close>.
\<close>

definition init_sdk :: "send_env \<Rightarrow> mail_store \<Rightarrow> (error_object + unit) \<times> mail_store" where
  "init_sdk env st =
     (if sdkLoaded st then (Inr (), st)
      else if script_loads env
        then (Inr (), st\<lparr>sdkLoaded := True, script_requests := Suc (script_requests st)\<rparr>)
        else (Inl (Error sdk_load_text), st\<lparr>script_requests := Suc (script_requests st)\<rparr>))"

text \<open>
  The chain \<open>self.init().then(...).then(...)\<close> of \<open>send\<close>, before its \<open>catch\<close>: the error it
  ends with, or the relay's response once the history is written.
\<close>

definition send_chain ::
  "jsstring \<Rightarrow> jsstring \<Rightarrow> template_params \<Rightarrow> send_env \<Rightarrow> mail_store \<Rightarrow>
     (error_object + relay_response) \<times> mail_store" where
  "send_chain subj message templateParams env st =
     (case init_sdk env st of
        (Inl err, st1) \<Rightarrow> (Inl err, st1)
      | (Inr u, st1) \<Rightarrow>
          if \<not> emailjs_defined env then (Inl (Error sdk_unavailable_text), st1)
          else
            (let st2 = st1\<lparr>relay_calls := relay_calls st1 @ [templateParams]\<rparr>
             in case relay env of
                  Failed err \<Rightarrow> (Inl err, st2)
                | Delivered response \<Rightarrow>
                    (case saveToHistory (trim subj) (trim message) (saved_display env)
                            (saved_day env) st2 of
                       None \<Rightarrow> (Inl (storage_error env), st2)
                     | Some st3 \<Rightarrow> (Inr response, st3))))"

text \<open>
  \<open>send(subject, message, imageUrl)\<close>; \<open>None\<close> for \<open>imageUrl\<close> is \<open>null\<close>. For a string,
  \<open>!subject || !subject.trim()\<close> says that nothing is left of it after \<open>trim\<close>.
\<close>

definition send ::
  "jsstring \<Rightarrow> jsstring \<Rightarrow> jsstring option \<Rightarrow> send_env \<Rightarrow> mail_store \<Rightarrow>
     relay_response promise \<times> mail_store" where
  "send subj message imageUrl env st =
     (if subj = [] \<or> trim subj = [] then (Rejects (Error subject_prompt), st)
      else if message = [] \<or> trim message = [] then (Rejects (Error message_prompt), st)
      else if \<not> isConfigured st then (Rejects (Error not_configured_text), st)
      else if getRemainingToday (check_day env) st \<le> 0 then (Rejects (Error limit_text), st)
      else
        (let templateParams =
               \<lparr>param_subject = trim subj, param_message = trim message,
                param_date = now_display env,
                param_image_url = (if present imageUrl then the imageUrl else no_image)\<rparr>
         in case send_chain subj message templateParams env st of
              (Inl err, st') \<Rightarrow> (Rejects (send_failure err), st')
            | (Inr response, st') \<Rightarrow> (Resolves response, st')))"

text \<open>\<open>getHistory()\<close>: the records without their \<open>dateKey\<close>.\<close>

record history_entry =
  entry_date :: jsstring
  entry_subject :: jsstring
  entry_preview :: jsstring

definition getHistory :: "mail_store \<Rightarrow> history_entry list" where
  "getHistory st =
     map (\<lambda>entry. \<lparr>entry_date = date entry, entry_subject = subject entry,
                    entry_preview = preview entry\<rparr>)
       (readArray st)"

definition clearHistory :: "mail_store \<Rightarrow> mail_store" where
  "clearHistory st = st\<lparr>sent_history := NoItem\<rparr>"

section \<open>Notions and concrete states for the properties\<close>

subsection \<open>Notions used to state the properties\<close>

text \<open>The elements of a collection (none when the property is not an array).\<close>

definition collection :: "jsval snapshot \<Rightarrow> string \<Rightarrow> jsval list" where
  "collection d key = (case get_prop d key of Some (VArr xs) \<Rightarrow> xs | _ \<Rightarrow> [])"

definition collection_of :: "store \<Rightarrow> string \<Rightarrow> jsval list" where
  "collection_of st key = (case data st of None \<Rightarrow> [] | Some d \<Rightarrow> collection d key)"

text \<open>All elements, in the order in which \<open>update\<close> searches them.\<close>

definition entries :: "jsval snapshot \<Rightarrow> jsval list" where
  "entries d = concat (map (collection d) pluralKeys)"

text \<open>A field of the object at an address: an own property of it.\<close>

definition own_field :: "heap \<Rightarrow> nat \<Rightarrow> string \<Rightarrow> jsval option" where
  "own_field h a k = map_of (own (obj_at h a)) k"

text \<open>An element is an entry with a given id; only an object has fields.\<close>

definition has_id :: "heap \<Rightarrow> string \<Rightarrow> jsval \<Rightarrow> bool" where
  "has_id h ident x =
     (case x of VRef a \<Rightarrow> own_field h a ''id'' = Some (VStr ident) | _ \<Rightarrow> False)"

text \<open>
  An element is plain: if it is an object, its prototype is the one every parsed object and
  every object literal has.
\<close>

definition plain :: "heap \<Rightarrow> jsval \<Rightarrow> bool" where
  "plain h x = (case x of VRef a \<Rightarrow> proto (obj_at h a) = ObjectPrototype | _ \<Rightarrow> True)"

text \<open>A sequence of \<open>update\<close> calls, one after the other.\<close>

fun updates :: "(string \<times> jsval) list \<Rightarrow> store \<Rightarrow> store" where
  "updates [] st = st"
| "updates (call # calls) st = updates calls (snd (update (fst call) (snd call) st))"

text \<open>
  No call of the sequence names \<open>type\<close> with a value other than the one the object at \<open>a\<close> has
  when the call is made.
\<close>

fun keeps_type :: "nat \<Rightarrow> (string \<times> jsval) list \<Rightarrow> store \<Rightarrow> bool" where
  "keeps_type a [] st = True"
| "keeps_type a (call # calls) st =
     ((case map_of (own_entries (heap st) (snd call)) ''type'' of
         None \<Rightarrow> True
       | Some v \<Rightarrow> own_field (heap st) a ''type'' = Some v) \<and>
      keeps_type a calls (snd (update (fst call) (snd call) st)))"

text \<open>
  The normal form of a parsed value, as a tree: an object or an array is kept and anything
  else replaced by the empty object, then each of the four collections that is not an array
  is set to the empty array.
\<close>

definition with_array :: "string \<Rightarrow> json snapshot \<Rightarrow> json snapshot" where
  "with_array k obj =
     (case get_prop obj k of Some (JArr xs) \<Rightarrow> obj | _ \<Rightarrow> set_prop k (JArr []) obj)"

definition normalized :: "json \<Rightarrow> json snapshot" where
  "normalized v =
     with_array ''streams'' (with_array ''posts'' (with_array ''screenshots''
       (with_array ''videos''
          (case v of
             JObj ps \<Rightarrow> \<lparr>indexed = None, props = ps\<rparr>
           | JArr xs \<Rightarrow> \<lparr>indexed = Some xs, props = []\<rparr>
           | _ \<Rightarrow> \<lparr>indexed = None, props = []\<rparr>))))"

text \<open>The JSON text of such a tree: an array is written without its named properties.\<close>

definition written :: "json snapshot \<Rightarrow> json" where
  "written obj = (case indexed obj of Some xs \<Rightarrow> JArr xs | None \<Rightarrow> JObj (props obj))"

text \<open>
  The snapshot in memory seen as a tree: every element and every named property written out
  as JSON (\<open>None\<close> when a structure is circular).
\<close>

definition view :: "heap \<Rightarrow> jsval snapshot \<Rightarrow> json snapshot option" where
  "view h obj =
     (case fields_to_json h [] (props obj) of
        None \<Rightarrow> None
      | Some ps \<Rightarrow>
          (case indexed obj of
             None \<Rightarrow> Some \<lparr>indexed = None, props = ps\<rparr>
           | Some xs \<Rightarrow>
               (case those (map (to_json h []) xs) of
                  None \<Rightarrow> None
                | Some ys \<Rightarrow> Some \<lparr>indexed = Some ys, props = ps\<rparr>)))"

text \<open>What \<open>getAll\<close> returns, written out as JSON.\<close>

definition getAll_json :: "string \<Rightarrow> store \<Rightarrow> json option" where
  "getAll_json t st = (case getAll t st of Inl err \<Rightarrow> None | Inr v \<Rightarrow> to_json (heap st) [] v)"

text \<open>
  The caller makes a value of its own, as an object literal or \<open>JSON.parse\<close> does: new objects
  in the heap.
\<close>

definition create :: "json \<Rightarrow> store \<Rightarrow> jsval \<times> store" where
  "create v st = (case alloc v (heap st) of (w, h') \<Rightarrow> (w, st\<lparr>heap := h'\<rparr>))"

subsection \<open>Notions for the messaging gateway\<close>

text \<open>One call of \<open>send\<close>: its three arguments and what it meets.\<close>

record send_call =
  call_subject :: jsstring
  call_message :: jsstring
  call_image :: "jsstring option"
  call_env :: send_env

text \<open>Calls of \<open>send\<close> one after the other, each started when the one before has settled.\<close>

fun sends :: "send_call list \<Rightarrow> mail_store \<Rightarrow> relay_response promise list \<times> mail_store" where
  "sends [] st = ([], st)"
| "sends (c # cs) st =
     (case send (call_subject c) (call_message c) (call_image c) (call_env c) st of
        (r, st1) \<Rightarrow> (case sends cs st1 of (rs, st2) \<Rightarrow> (r # rs, st2)))"

fun resolved :: "'a promise \<Rightarrow> bool" where
  "resolved (Resolves r) = True"
| "resolved (Rejects e) = False"

definition successful :: "relay_response promise list \<Rightarrow> nat" where
  "successful rs = length (filter resolved rs)"

text \<open>All clock readings of the calls fall on the day with key \<open>day\<close>.\<close>

definition within_day :: "jsstring \<Rightarrow> send_call list \<Rightarrow> bool" where
  "within_day day calls =
     list_all (\<lambda>c. check_day (call_env c) = day \<and> saved_day (call_env c) = day) calls"

text \<open>
  The records of the history item that carry the key of a day, read off the item itself; a
  missing item and one that is not an array hold none.
\<close>

definition records_of_day :: "jsstring \<Rightarrow> mail_store \<Rightarrow> history_record list" where
  "records_of_day day st =
     (case sent_history st of
        Records rs \<Rightarrow> filter (\<lambda>r. dateKey r = day) rs
      | NoItem \<Rightarrow> []
      | Unusable \<Rightarrow> [])"

text \<open>A localStorage item, or a property of an error, that is missing or the empty string.\<close>

definition blank :: "jsstring option \<Rightarrow> bool" where
  "blank v = (v = None \<or> v = Some [])"






subsection \<open>Concrete stores\<close>

text \<open>States and inputs at which the theorems below are instantiated.\<close>

definition video_a :: json where
  "video_a = JObj [(''id'', JStr ''a''), (''type'', JStr ''video''), (''title'', JStr ''First'')]"

definition empty_store :: store where
  "empty_store =
     \<lparr>heap = [], data = None, content_item = None, cloud_json_url = None, storage_full = False,
      cloud_sync_timer = False\<rparr>"

text \<open>A store that holds one video, with some text in its localStorage item.\<close>

definition one_video :: "document \<Rightarrow> store" where
  "one_video item =
     \<lparr>heap = [\<lparr>own = [(''id'', VStr ''a''), (''type'', VStr ''video''), (''title'', VStr ''First'')],
               proto = ObjectPrototype\<rparr>],
      data = Some \<lparr>indexed = None,
                    props = [(''videos'', VArr [VRef 0]), (''screenshots'', VArr []),
                             (''posts'', VArr []), (''streams'', VArr [])]\<rparr>,
      content_item = Some item, cloud_json_url = None, storage_full = False,
      cloud_sync_timer = False\<rparr>"

definition hello_video :: json where
  "hello_video = JObj [(''type'', JStr ''video''), (''title'', JStr ''Hello'')]"

definition first_env :: add_env where
  "first_env = \<lparr>generated_id = ''id-1'', today_iso = ''2024-01-01''\<rparr>"

text \<open>
  A file whose whole content is \<open>[]\<close> is imported into a fresh store; then the caller makes a
  video entry and adds it.
\<close>

definition array_store :: store where
  "array_store = snd (importJSON (Some (Readable (Json (JArr [])))) empty_store)"

definition array_rooted :: store where
  "array_rooted =
     snd (add first_env (fst (create hello_video array_store))
            (snd (create hello_video array_store)))"

definition stored_hello :: json where
  "stored_hello =
     JObj [(''type'', JStr ''video''), (''title'', JStr ''Hello''), (''id'', JStr ''id-1''),
           (''date'', JStr ''2024-01-01'')]"

text \<open>Values a caller hands to \<open>update\<close> as \<open>updatedFields\<close>.\<close>

definition title_X :: json where
  "title_X = JObj [(''title'', JStr ''X'')]"

definition rename_fields :: json where
  "rename_fields = JObj [(''type'', JStr ''video''), (''title'', JStr ''Renamed'')]"

definition tag_fields :: json where
  "tag_fields = JObj [(''gameTag'', JStr ''Minecraft''), (''date'', JStr ''2024-02-02'')]"

definition post_fields :: json where
  "post_fields = JObj [(''type'', JStr ''post'')]"

definition proto_fields :: json where
  "proto_fields = JObj [(''__proto__'', JObj [(''title'', JStr ''Y'')])]"

text \<open>The store with one video, and the caller has made \<open>{title: 'X'}\<close> (the object at 1).\<close>

definition one_video_X :: store where
  "one_video_X = snd (create title_X (one_video (Json JNull)))"

definition blank_id_file :: document where
  "blank_id_file =
     Json (JObj [(''videos'', JArr [JObj [(''id'', JStr []), (''title'', JStr ''A'')]])])"

text \<open>
  A fresh store that has imported that file (its video is the object at 0), and the caller has
  made \<open>{title: 'X'}\<close> (the object at 1).
\<close>

definition blank_id_store :: store where
  "blank_id_store =
     snd (create title_X (snd (importJSON (Some (Readable blank_id_file)) empty_store)))"

text \<open>
  In a fresh store the caller has made two values for \<open>updatedFields\<close> (the objects at 0 and
  1) and a video entry (at 2); the calls that use them.
\<close>

definition prepared :: store where
  "prepared =
     snd (create hello_video (snd (create tag_fields (snd (create rename_fields empty_store)))))"

definition two_renames :: "(string \<times> jsval) list" where
  "two_renames = [(''id-1'', VRef 0), (''id-1'', VRef 1)]"

text \<open>In a fresh store the caller has made a video entry (at 0) and \<open>{type: 'post'}\<close> (at 1).\<close>

definition retype_store :: store where
  "retype_store = snd (create post_fields (snd (create hello_video empty_store)))"

text \<open>
  The caller has made a video entry (at 0), added it twice, and made \<open>{title: 'X'}\<close> (at 1).
\<close>

definition twice_added :: store where
  "twice_added =
     snd (create title_X
            (snd (add first_env (VRef 0)
                    (snd (add first_env (VRef 0) (snd (create hello_video empty_store)))))))"

text \<open>
  The store with one video, and the caller has parsed \<open>{"__proto__": {"title": "Y"}}\<close> (the
  inner object at 1, the outer one at 2).
\<close>

definition one_video_proto :: store where
  "one_video_proto = snd (create proto_fields (one_video (Json JNull)))"

subsection \<open>Concrete gateway states\<close>

definition configured_store :: mail_store where
  "configured_store =
     \<lparr>service_id = Some (ascii ''service_1''), template_id = Some (ascii ''template_1''),
      public_key = Some (ascii ''key_1''), sent_history = NoItem, mail_storage_full = False,
      sdkLoaded = False, script_requests = 0, relay_calls = []\<rparr>"

definition relay_ok :: relay_response where
  "relay_ok = \<lparr>status = 200, status_text = ascii ''OK''\<rparr>"

definition good_env :: send_env where
  "good_env =
     \<lparr>now_display = ascii ''01.01.2024, 10:00'', check_day = ascii ''2024-01-01'',
      script_loads = True, emailjs_defined = True, relay = Delivered relay_ok,
      saved_display = ascii ''01.01.2024, 10:01'', saved_day = ascii ''2024-01-01'',
      storage_error = Error (ascii ''The quota has been exceeded.'')\<rparr>"

definition hello_call :: send_call where
  "hello_call =
     \<lparr>call_subject = ascii ''Hi'', call_message = ascii ''Hello uncle'', call_image = None,
      call_env = good_env\<rparr>"

definition sent_record :: history_record where
  "sent_record =
     \<lparr>date = ascii ''01.01.2024, 09:00'', dateKey = ascii ''2024-01-01'',
      subject = ascii ''Earlier'', preview = ascii ''Earlier message''\<rparr>"

text \<open>The store after ten messages of the day.\<close>

definition full_day_store :: mail_store where
  "full_day_store = configured_store\<lparr>sent_history := Records (replicate 10 sent_record)\<rparr>"

text \<open>Bodies of 60 and 51 letters, and one of a space and 50 letters.\<close>

definition sixty_letters :: jsstring where
  "sixty_letters = replicate 60 0x0078"

definition fifty_one_letters :: jsstring where
  "fifty_one_letters = replicate 51 0x0078"

definition padded_fifty :: jsstring where
  "padded_fifty = 0x0020 # replicate 50 0x0078"



text \<open>A store whose history holds one message of the day, and one holding ten of the day before.\<close>

definition one_sent_store :: mail_store where
  "one_sent_store = configured_store\<lparr>sent_history := Records [sent_record]\<rparr>"

definition eve_record :: history_record where
  "eve_record =
     \<lparr>date = ascii ''31.12.2023, 21:00'', dateKey = ascii ''2023-12-31'',
      subject = ascii ''Eve'', preview = ascii ''Happy new year''\<rparr>"

definition day_after_store :: mail_store where
  "day_after_store = configured_store\<lparr>sent_history := Records (replicate 10 eve_record)\<rparr>"




section \<open>Properties of the content store\<close>

lemma map_of_put: "map_of (put k v ps) = (map_of ps)(k \<mapsto> v)"
  by (induction ps) (auto simp: fun_eq_iff)

lemma get_prop_set_prop: "get_prop (set_prop k v obj) k' = (if k' = k then Some v else get_prop obj k')"
  by (simp add: get_prop_def set_prop_def map_of_put)

lemma isArray_ensure_array_same: "isArray (get_prop (ensure_array k obj) k)"
  by (simp add: ensure_array_def get_prop_set_prop)

lemma isArray_ensure_array_other:
  "isArray (get_prop obj k') \<Longrightarrow> isArray (get_prop (ensure_array k obj) k')"
  by (simp add: ensure_array_def get_prop_set_prop)

lemma ensureStructure_valid: "structurally_valid (fst (ensureStructure v h))"
  unfolding structurally_valid_def ensureStructure_def
  by (cases "as_object v h")
     (simp, intro conjI isArray_ensure_array_same isArray_ensure_array_other)

lemma data_save: "data (save st) = data st"
  by (simp add: save_def Let_def split: option.split)

lemma heap_save: "heap (save st) = heap st"
  by (simp add: save_def Let_def split: option.split)

lemma set_data_result:
  "set_data v st =
     (fst (ensureStructure v (heap st)),
      st\<lparr>heap := snd (ensureStructure v (heap st)),
         data := Some (fst (ensureStructure v (heap st)))\<rparr>)"
  by (simp add: set_data_def split: prod.split)

text \<open>
  C1. Whatever the local store holds and however the three requests end, \<open>init\<close> fulfils its
  promise (it neither rejects nor stays pending), the value is the new \<open>_data\<close>, and all four
  collections of it are arrays.
\<close>

theorem init_always_resolves:
  "\<exists>d. fst (init env st) = Fulfilled d \<and> data (snd (init env st)) = Some d \<and> structurally_valid d"
  by (simp add: init_def set_data_result data_save ensureStructure_valid
      split: option.split sum.split)

subsection \<open>Parsed values in memory\<close>

lemma alloc_extends:
  "\<exists>e. snd (alloc v h) = h @ e"
  "\<exists>e. snd (alloc_list xs h) = h @ e"
  "\<exists>e. snd (alloc_fields ps h) = h @ e"
proof (induction v h and xs h and ps h rule: alloc_alloc_list_alloc_fields.induct)
  case (5 xs h)
  then show ?case by (auto split: prod.split)
next
  case (6 ps h)
  then show ?case by (auto split: prod.split)
next
  case (8 x xs h)
  obtain v h1 where a: "alloc x h = (v, h1)" by (cases "alloc x h")
  obtain vs h2 where b: "alloc_list xs h1 = (vs, h2)" by (cases "alloc_list xs h1")
  from 8(1) a obtain e1 where "h1 = h @ e1" by auto
  moreover from 8(2)[OF a[symmetric]] b obtain e2 where "h2 = h1 @ e2" by auto
  ultimately show ?case using a b by simp
next
  case (10 p ps h)
  obtain v h1 where a: "alloc (snd p) h = (v, h1)" by (cases "alloc (snd p) h")
  obtain fs h2 where b: "alloc_fields ps h1 = (fs, h2)" by (cases "alloc_fields ps h1")
  from 10(1) a obtain e1 where "h1 = h @ e1" by auto
  moreover from 10(2)[OF a[symmetric]] b obtain e2 where "h2 = h1 @ e2" by auto
  ultimately show ?case using a b by simp
qed simp_all

lemma to_json_VRef:
  "to_json h stack (VRef a) =
     (if a \<in> set stack then None
      else if length h \<le> a then Some (JObj [])
      else map_option JObj (fields_to_json h (a # stack) (own (h ! a))))"
  by (simp add: fields_to_json_def)

lemma fields_to_json_Cons:
  "fields_to_json h stack (p # ps) =
     (case to_json h stack (snd p) of
        None \<Rightarrow> None
      | Some j \<Rightarrow> map_option ((#) (fst p, j)) (fields_to_json h stack ps))"
  by (simp add: fields_to_json_def split: option.split)

lemma fields_to_json_Nil: "fields_to_json h stack [] = Some []"
  by (simp add: fields_to_json_def)

lemma alloc_to_json:
  "alloc v h = (w, h') \<Longrightarrow> \<forall>s\<in>set stack. s < length h \<or> length h' \<le> s \<Longrightarrow>
     to_json (h' @ ext) stack w = Some v"
  "alloc_list xs h = (ws, h') \<Longrightarrow> \<forall>s\<in>set stack. s < length h \<or> length h' \<le> s \<Longrightarrow>
     those (map (to_json (h' @ ext) stack) ws) = Some xs"
  "alloc_fields ps h = (fs, h') \<Longrightarrow> \<forall>s\<in>set stack. s < length h \<or> length h' \<le> s \<Longrightarrow>
     fields_to_json (h' @ ext) stack fs = Some ps"
proof (induction v h and xs h and ps h arbitrary: w h' stack ext and ws h' stack ext and fs h' stack ext
       rule: alloc_alloc_list_alloc_fields.induct)
  case (5 xs h)
  obtain vs h1 where a: "alloc_list xs h = (vs, h1)" by (cases "alloc_list xs h")
  with 5(2) have w: "w = VArr vs" "h' = h1" by simp_all
  from 5(1)[OF a[unfolded w(2)[symmetric]] 5(3), of ext] w show ?case by simp
next
  case (6 ps h)
  obtain gs h1 where a: "alloc_fields ps h = (gs, h1)" by (cases "alloc_fields ps h")
  with 6(2) have w: "w = VRef (length h1)" "h' = h1 @ [\<lparr>own = gs, proto = ObjectPrototype\<rparr>]"
    by simp_all
  from alloc_extends(3)[of ps h] a have le: "length h \<le> length h1" by auto
  have notin: "length h1 \<notin> set stack"
    using 6(3) le w(2) by auto
  have st: "\<forall>s\<in>set (length h1 # stack). s < length h \<or> length h1 \<le> s"
    using 6(3) w(2) by auto
  have "fields_to_json (h1 @ ([\<lparr>own = gs, proto = ObjectPrototype\<rparr>] @ ext)) (length h1 # stack) gs = Some ps"
    by (rule 6(1)[OF a st])
  then show ?case
    using notin w by (simp add: to_json_VRef nth_append del: to_json.simps)
next
  case (8 x xs h)
  obtain v h1 where a: "alloc x h = (v, h1)" by (cases "alloc x h")
  obtain vs h2 where b: "alloc_list xs h1 = (vs, h2)" by (cases "alloc_list xs h1")
  from 8(3) a b have w: "ws = v # vs" "h' = h2" by simp_all
  from alloc_extends(1)[of x h] a have le1: "length h \<le> length h1" by auto
  from alloc_extends(2)[of xs h1] b obtain e2 where e2: "h2 = h1 @ e2" by auto
  have s1: "\<forall>s\<in>set stack. s < length h \<or> length h1 \<le> s"
    using 8(4) w(2) e2 by auto
  have s2: "\<forall>s\<in>set stack. s < length h1 \<or> length h2 \<le> s"
    using 8(4) w(2) le1 by auto
  have "to_json (h1 @ (e2 @ ext)) stack v = Some x"
    by (rule 8(1)[OF a s1])
  moreover have "those (map (to_json (h2 @ ext) stack) vs) = Some xs"
    by (rule 8(2)[OF a[symmetric] b s2])
  ultimately show ?case
    using w e2 by simp
next
  case (10 p ps h)
  obtain v h1 where a: "alloc (snd p) h = (v, h1)" by (cases "alloc (snd p) h")
  obtain gs h2 where b: "alloc_fields ps h1 = (gs, h2)" by (cases "alloc_fields ps h1")
  from 10(3) a b have w: "fs = (fst p, v) # gs" "h' = h2" by simp_all
  from alloc_extends(1)[of "snd p" h] a have le1: "length h \<le> length h1" by auto
  from alloc_extends(3)[of ps h1] b obtain e2 where e2: "h2 = h1 @ e2" by auto
  have s1: "\<forall>s\<in>set stack. s < length h \<or> length h1 \<le> s"
    using 10(4) w(2) e2 by auto
  have s2: "\<forall>s\<in>set stack. s < length h1 \<or> length h2 \<le> s"
    using 10(4) w(2) le1 by auto
  have "to_json (h1 @ (e2 @ ext)) stack v = Some (snd p)"
    by (rule 10(1)[OF a s1])
  moreover have "fields_to_json (h2 @ ext) stack gs = Some ps"
    by (rule 10(2)[OF a[symmetric] b s2])
  ultimately show ?case
    using w e2 by (simp add: fields_to_json_Cons)
qed (auto simp: fields_to_json_Nil)

lemma fields_to_json_rel:
  "(fields_to_json h stack fs = Some ps) =
     list_all2 (\<lambda>f p. fst f = fst p \<and> to_json h stack (snd f) = Some (snd p)) fs ps"
proof (induction fs arbitrary: ps)
  case Nil
  show ?case by (auto simp: fields_to_json_Nil)
next
  case (Cons f fs)
  show ?case
    by (cases ps) (auto simp: fields_to_json_Cons Cons.IH split: option.splits)
qed

lemma rel_map_of:
  assumes "list_all2 (\<lambda>f p. fst f = fst p \<and> to_json h stack (snd f) = Some (snd p)) fs ps"
  shows "(case map_of fs k of None \<Rightarrow> map_of ps k = None
          | Some w \<Rightarrow> \<exists>j. map_of ps k = Some j \<and> to_json h stack w = Some j)"
  using assms by (induction fs ps rule: list_all2_induct) (auto split: option.splits)

lemma rel_put:
  assumes "list_all2 (\<lambda>f p. fst f = fst p \<and> to_json h stack (snd f) = Some (snd p)) fs ps"
    and "to_json h stack w = Some j"
  shows "list_all2 (\<lambda>f p. fst f = fst p \<and> to_json h stack (snd f) = Some (snd p))
           (put k w fs) (put k j ps)"
  using assms by (induction fs ps rule: list_all2_induct) auto

lemma to_json_array: "to_json h stack w = Some j \<Longrightarrow> (\<exists>xs. w = VArr xs) = (\<exists>ys. j = JArr ys)"
  by (cases w) (auto simp: to_json_VRef simp del: to_json.simps(6) split: if_splits)

lemma view_ensure_array:
  assumes "view h d = Some j"
  shows "view h (ensure_array k d) = Some (with_array k j)"
proof -
  from assms obtain ps where ps: "fields_to_json h [] (props d) = Some ps" "props j = ps"
    by (auto simp: view_def split: option.splits)
  have ix: "indexed j = (case indexed d of None \<Rightarrow> None
              | Some xs \<Rightarrow> those (map (to_json h []) xs))"
    using assms by (auto simp: view_def split: option.splits)
  have rel: "list_all2 (\<lambda>f p. fst f = fst p \<and> to_json h [] (snd f) = Some (snd p)) (props d) ps"
    using ps(1) by (simp add: fields_to_json_rel)
  show ?thesis
  proof (cases "isArray (get_prop d k)")
    case True
    then obtain xs where xs: "map_of (props d) k = Some (VArr xs)"
      by (cases "get_prop d k" rule: isArray.cases) (auto simp: get_prop_def)
    with rel_map_of[OF rel, of k] obtain jv where jv: "map_of ps k = Some jv"
      "to_json h [] (VArr xs) = Some jv" by auto
    from to_json_array[OF jv(2)] obtain ys where "jv = JArr ys" by auto
    with jv ps have "with_array k j = j"
      by (simp add: with_array_def get_prop_def)
    with True assms show ?thesis by (simp add: ensure_array_def)
  next
    case False
    have notarr: "\<not> (\<exists>ys. map_of ps k = Some (JArr ys))"
    proof
      assume "\<exists>ys. map_of ps k = Some (JArr ys)"
      then obtain ys where ys: "map_of ps k = Some (JArr ys)" by auto
      with rel_map_of[OF rel, of k] obtain w where w: "map_of (props d) k = Some w"
        "to_json h [] w = Some (JArr ys)" by (auto split: option.splits)
      from to_json_array[OF w(2)] obtain xs where "w = VArr xs" by auto
      with w False show False by (simp add: get_prop_def)
    qed
    then have wa: "with_array k j = set_prop k (JArr []) j"
      using ps by (auto simp: with_array_def get_prop_def split: option.splits json.splits)
    have "list_all2 (\<lambda>f p. fst f = fst p \<and> to_json h [] (snd f) = Some (snd p))
            (put k (VArr []) (props d)) (put k (JArr []) ps)"
      by (rule rel_put[OF rel]) simp
    then have "fields_to_json h [] (put k (VArr []) (props d)) = Some (put k (JArr []) ps)"
      by (simp add: fields_to_json_rel)
    then have "view h (set_prop k (VArr []) d) = Some (set_prop k (JArr []) j)"
      using assms ps ix by (auto simp: view_def set_prop_def split: option.splits)
    with False wa show ?thesis by (simp add: ensure_array_def)
  qed
qed

lemma view_as_object:
  assumes "as_object v h = (d, h')"
  shows "view h' d =
           Some (case v of
                   JObj ps \<Rightarrow> \<lparr>indexed = None, props = ps\<rparr>
                 | JArr xs \<Rightarrow> \<lparr>indexed = Some xs, props = []\<rparr>
                 | _ \<Rightarrow> \<lparr>indexed = None, props = []\<rparr>)"
proof (cases v)
  case (JObj ps)
  obtain fs h1 where a: "alloc_fields ps h = (fs, h1)" by (cases "alloc_fields ps h")
  from alloc_to_json(3)[OF a, of "[]" "[]"] have "fields_to_json h1 [] fs = Some ps" by simp
  with assms JObj a show ?thesis by (auto simp: view_def)
next
  case (JArr xs)
  obtain vs h1 where a: "alloc_list xs h = (vs, h1)" by (cases "alloc_list xs h")
  from alloc_to_json(2)[OF a, of "[]" "[]"] have "those (map (to_json h1 []) vs) = Some xs" by simp
  with assms JArr a show ?thesis by (auto simp: view_def fields_to_json_Nil)
qed (use assms in \<open>auto simp: view_def fields_to_json_Nil\<close>)

text \<open>
  What \<open>_ensureStructure\<close> leaves in memory for a parsed value is, seen as a tree, the normal
  form of that value: nothing of the former snapshot is in it.
\<close>

lemma view_ensureStructure:
  "view (snd (ensureStructure v h)) (fst (ensureStructure v h)) = Some (normalized v)"
proof -
  obtain d h' where a: "as_object v h = (d, h')" by (cases "as_object v h")
  show ?thesis
    using view_as_object[OF a] a
    by (simp add: ensureStructure_def normalized_def view_ensure_array)
qed

lemma serialize_view: "view h d = Some j \<Longrightarrow> serialize h d = Some (written j)"
  by (auto simp: view_def serialize_def written_def split: option.splits)

text \<open>With no stored item and every request failing, \<open>init\<close> ends with four empty collections.\<close>

lemma init_offline:
  "init \<lparr>config_fetch = FetchRejects, cloud_fetch = FetchRejects, seed_fetch = FetchRejects\<rparr>
     empty_store =
   (Fulfilled \<lparr>indexed = None,
               props = [(''videos'', VArr []), (''screenshots'', VArr []), (''posts'', VArr []),
                        (''streams'', VArr [])]\<rparr>,
    \<lparr>heap = [],
     data = Some \<lparr>indexed = None,
                   props = [(''videos'', VArr []), (''screenshots'', VArr []), (''posts'', VArr []),
                            (''streams'', VArr [])]\<rparr>,
     content_item = Some (Json (JObj [(''videos'', JArr []), (''screenshots'', JArr []),
                                      (''posts'', JArr []), (''streams'', JArr [])])),
     cloud_json_url = None, storage_full = False, cloud_sync_timer = True\<rparr>)"
  by (simp add: init_def load_def empty_store_def fetch_content_def fetch_json_or_empty_def
      set_data_def ensureStructure_def ensure_array_def get_prop_def set_prop_def save_def Let_def
      JSON_stringify_def serialize_def fields_to_json_def)

subsection \<open>Import\<close>

text \<open>
  C3. \<open>importJSON\<close> and a parse failure: when the text of the file is not valid JSON the
  promise rejects with the invalid-file error and the whole state (the cache, the heap, the
  stored item) is what it was, so \<open>getAll\<close> answers as before. When it parses to \<open>v\<close>, the
  promise fulfils with \<open>_ensureStructure(v)\<close>, which is the new cache whatever the old one
  held: seen as a tree it is the normal form of \<open>v\<close>, and the stored item is the text of that
  normal form when the storage takes the write.
\<close>

theorem importJSON_parse_failure_atomic:
  "(JSON_parse bytes = None \<longrightarrow>
      importJSON (Some (Readable bytes)) st = (RejectedWith InvalidJSONFile, st) \<and>
      getAll t (snd (importJSON (Some (Readable bytes)) st)) = getAll t st) \<and>
   (JSON_parse bytes = Some v \<longrightarrow>
      fst (importJSON (Some (Readable bytes)) st) = Fulfilled (fst (ensureStructure v (heap st))) \<and>
      data (snd (importJSON (Some (Readable bytes)) st)) = Some (fst (ensureStructure v (heap st))) \<and>
      heap (snd (importJSON (Some (Readable bytes)) st)) = snd (ensureStructure v (heap st)) \<and>
      view (heap (snd (importJSON (Some (Readable bytes)) st))) (fst (ensureStructure v (heap st))) =
        Some (normalized v) \<and>
      (\<not> storage_full st \<longrightarrow>
         content_item (snd (importJSON (Some (Readable bytes)) st)) =
           Some (JSON_stringify (written (normalized v)))))"
proof (intro conjI impI)
  assume "JSON_parse bytes = None"
  then show "importJSON (Some (Readable bytes)) st = (RejectedWith InvalidJSONFile, st)"
    and "getAll t (snd (importJSON (Some (Readable bytes)) st)) = getAll t st"
    by (simp_all add: importJSON_def)
next
  assume p: "JSON_parse bytes = Some v"
  let ?d = "fst (ensureStructure v (heap st))" and ?h = "snd (ensureStructure v (heap st))"
  have r: "importJSON (Some (Readable bytes)) st =
             (Fulfilled ?d, save (st\<lparr>heap := ?h, data := Some ?d\<rparr>))"
    using p by (simp add: importJSON_def set_data_result)
  show "fst (importJSON (Some (Readable bytes)) st) = Fulfilled ?d"
    and "data (snd (importJSON (Some (Readable bytes)) st)) = Some ?d"
    and h: "heap (snd (importJSON (Some (Readable bytes)) st)) = ?h"
    by (simp_all add: r data_save heap_save)
  show "view (heap (snd (importJSON (Some (Readable bytes)) st))) ?d = Some (normalized v)"
    by (simp add: h view_ensureStructure)
  assume "\<not> storage_full st"
  then show "content_item (snd (importJSON (Some (Readable bytes)) st)) =
           Some (JSON_stringify (written (normalized v)))"
    by (simp add: r save_def serialize_view[OF view_ensureStructure])
qed

theorem importJSON_parse_failure_atomic_witness:
  "importJSON (Some (Readable (Malformed ''{not valid json''))) (one_video (Json JNull)) =
     (RejectedWith InvalidJSONFile, one_video (Json JNull)) \<and>
   getAll ''video'' (snd (importJSON (Some (Readable (Malformed ''{not valid json'')))
       (one_video (Json JNull)))) = Inr (VArr [VRef 0]) \<and>
   getAll_json ''video'' (snd (importJSON (Some (Readable (Malformed ''{not valid json'')))
       (one_video (Json JNull)))) = Some (JArr [video_a]) \<and>
   data (snd (importJSON (Some (Readable (Json (JObj [(''posts'', JArr [JNum 1])]))))
       (one_video (Json JNull)))) =
     Some \<lparr>indexed = None,
           props = [(''posts'', VArr [VNum 1]), (''videos'', VArr []),
                    (''screenshots'', VArr []), (''streams'', VArr [])]\<rparr> \<and>
   getAll_json ''video'' (snd (importJSON (Some (Readable (Json (JObj [(''posts'', JArr [JNum 1])]))))
       (one_video (Json JNull)))) = Some (JArr []) \<and>
   content_item (snd (importJSON (Some (Readable (Json (JObj [(''posts'', JArr [JNum 1])]))))
       (one_video (Json JNull)))) =
     Some (Json (JObj [(''posts'', JArr [JNum 1]), (''videos'', JArr []),
                       (''screenshots'', JArr []), (''streams'', JArr [])]))"
proof -
  let ?st = "one_video (Json JNull)"
  let ?bad = "Malformed ''{not valid json''"
  let ?v = "JObj [(''posts'', JArr [JNum 1])]"
  have a: "JSON_parse ?bad = None" by simp
  have b: "JSON_parse (Json ?v) = Some ?v" by simp
  have c: "\<not> storage_full ?st" by (simp add: one_video_def)
  have e: "fst (ensureStructure ?v (heap ?st)) =
             \<lparr>indexed = None,
              props = [(''posts'', VArr [VNum 1]), (''videos'', VArr []),
                       (''screenshots'', VArr []), (''streams'', VArr [])]\<rparr>"
    by (simp add: ensureStructure_def ensure_array_def get_prop_def set_prop_def)
  have n: "written (normalized ?v) =
             JObj [(''posts'', JArr [JNum 1]), (''videos'', JArr []),
                   (''screenshots'', JArr []), (''streams'', JArr [])]"
    by (simp add: normalized_def with_array_def get_prop_def set_prop_def written_def)
  have g: "getAll ''video'' ?st = Inr (VArr [VRef 0])"
    by (simp add: getAll_def TYPE_MAP_def one_video_def get_prop_def)
  have gj: "getAll_json ''video'' ?st = Some (JArr [video_a])"
    by (simp add: getAll_json_def g) (simp add: one_video_def video_a_def)
  from importJSON_parse_failure_atomic[of ?bad ?st "''video''"] a
  have 1: "importJSON (Some (Readable ?bad)) ?st = (RejectedWith InvalidJSONFile, ?st)"
    by simp
  from importJSON_parse_failure_atomic[of "Json ?v" ?st _ ?v] b c e n
  have 2: "data (snd (importJSON (Some (Readable (Json ?v))) ?st)) =
             Some \<lparr>indexed = None,
                   props = [(''posts'', VArr [VNum 1]), (''videos'', VArr []),
                            (''screenshots'', VArr []), (''streams'', VArr [])]\<rparr>"
    and 3: "content_item (snd (importJSON (Some (Readable (Json ?v))) ?st)) =
             Some (Json (JObj [(''posts'', JArr [JNum 1]), (''videos'', JArr []),
                               (''screenshots'', JArr []), (''streams'', JArr [])]))"
    by (simp_all add: JSON_stringify_def)
  have 4: "getAll_json ''video'' (snd (importJSON (Some (Readable (Json ?v))) ?st)) = Some (JArr [])"
    using 2 by (simp add: getAll_json_def getAll_def TYPE_MAP_def get_prop_def)
  from 1 2 3 4 g gj show ?thesis
    by simp
qed

subsection \<open>Export followed by import\<close>

lemma view_valid:
  assumes "view h d = Some j" and "isArray (get_prop d k)"
  shows "with_array k j = j"
proof -
  from assms(2) have "ensure_array k d = d"
    by (simp add: ensure_array_def)
  with view_ensure_array[OF assms(1), of k] assms(1) show ?thesis
    by simp
qed

text \<open>
  When the snapshot is a plain object (and no entry lies within itself), what \<open>exportJSON\<close>
  writes is read back by \<open>importJSON\<close> as a snapshot that is the same tree.
\<close>

lemma export_import_plain_object:
  assumes "data st = Some d" and "structurally_valid d" and "indexed d = None"
    and "view (heap st) d = Some j"
  shows "\<exists>doc d'. exportJSON st = Inr (Some doc) \<and>
           fst (importJSON (Some (Readable doc)) st) = Fulfilled d' \<and>
           data (snd (importJSON (Some (Readable doc)) st)) = Some d' \<and>
           view (heap (snd (importJSON (Some (Readable doc)) st))) d' = Some j"
proof -
  have ix: "indexed j = None"
    using assms(3,4) by (auto simp: view_def split: option.splits)
  then have w: "written j = JObj (props j)"
    by (simp add: written_def)
  have e: "exportJSON st = Inr (Some (Json (JObj (props j))))"
    using assms(1) serialize_view[OF assms(4)] w
    by (simp add: exportJSON_def JSON_stringify_def)
  have "\<lparr>indexed = None, props = props j\<rparr> = j"
    using ix by simp
  then have n: "normalized (JObj (props j)) = j"
    using assms(2) view_valid[OF assms(4)]
    by (simp add: normalized_def structurally_valid_def)
  let ?doc = "Json (JObj (props j))"
  let ?r = "importJSON (Some (Readable ?doc)) st"
  have "fst ?r = Fulfilled (fst (ensureStructure (JObj (props j)) (heap st)))"
    and "data (snd ?r) = Some (fst (ensureStructure (JObj (props j)) (heap st)))"
    and "view (heap (snd ?r)) (fst (ensureStructure (JObj (props j)) (heap st))) = Some j"
    by (simp_all add: importJSON_def set_data_result data_save heap_save view_ensureStructure n)
  with e show ?thesis by blast
qed

lemma array_rooted_state:
  "heap array_rooted =
     [\<lparr>own = [(''type'', VStr ''video''), (''title'', VStr ''Hello''), (''id'', VStr ''id-1''),
              (''date'', VStr ''2024-01-01'')],
       proto = ObjectPrototype\<rparr>]"
  "data array_rooted =
     Some \<lparr>indexed = Some [],
           props = [(''videos'', VArr [VRef 0]), (''screenshots'', VArr []),
                    (''posts'', VArr []), (''streams'', VArr [])]\<rparr>"
  by (simp_all add: array_rooted_def array_store_def create_def importJSON_def empty_store_def
      set_data_def Let_def save_def add_def hello_video_def first_env_def TYPE_MAP_def
      default_field_def read_prop_def chain_def obj_at_def set_own_def data_or_empty_def
      serialize_def ensureStructure_def ensure_array_def get_prop_def set_prop_def)

text \<open>
  C4, at a snapshot the store reaches through its own interface: after importing a file that
  holds a JSON array and adding a video, the snapshot is structurally valid and \<open>getAll\<close>
  returns the video; \<open>exportJSON\<close> writes only the array, and importing what it wrote leaves
  no video.
\<close>

theorem export_import_array_rooted:
  "(\<exists>d. data array_rooted = Some d \<and> structurally_valid d) \<and>
   getAll ''video'' array_rooted = Inr (VArr [VRef 0]) \<and>
   getAll_json ''video'' array_rooted = Some (JArr [stored_hello]) \<and>
   exportJSON array_rooted = Inr (Some (Json (JArr []))) \<and>
   getAll ''video'' (snd (importJSON (Some (Readable (Json (JArr [])))) array_rooted)) =
     Inr (VArr [])"
  by (simp add: array_rooted_state structurally_valid_def get_prop_def getAll_def getAll_json_def
      TYPE_MAP_def exportJSON_def JSON_stringify_def serialize_def importJSON_def set_data_def
      data_save ensureStructure_def ensure_array_def set_prop_def stored_hello_def)

subsection \<open>Update\<close>

lemma chain_plain: "proto (obj_at h a) = ObjectPrototype \<Longrightarrow> chain h a = [a]"
  by (simp add: chain_def)

lemma read_prop_plain:
  "proto (obj_at h a) = ObjectPrototype \<Longrightarrow> read_prop h (VRef a) k = own_field h a k"
  by (simp add: read_prop_def chain_plain own_field_def split: option.split)

lemma own_field_valid: "own_field h a k = Some v \<Longrightarrow> a < length h"
  by (auto simp: own_field_def obj_at_def split: if_splits)

lemma find_entry_none:
  "\<forall>x\<in>set xs. x \<noteq> VNull \<and> plain h x \<Longrightarrow> \<forall>x\<in>set xs. \<not> has_id h ident x \<Longrightarrow>
   find_entry h ident xs = Inr None"
  by (induction h ident xs rule: find_entry.induct)
     (auto simp: has_id_def plain_def read_prop_plain)

lemma find_entry_some:
  "\<forall>x\<in>set xs. x \<noteq> VNull \<and> plain h x \<Longrightarrow> \<exists>x\<in>set xs. has_id h ident x \<Longrightarrow>
   \<exists>i a. i < length xs \<and> xs ! i = VRef a \<and> has_id h ident (VRef a) \<and>
         (\<forall>j<i. \<not> has_id h ident (xs ! j)) \<and> find_entry h ident xs = Inr (Some a)"
proof (induction xs)
  case Nil
  then show ?case by simp
next
  case (Cons x xs)
  show ?case
  proof (cases "has_id h ident x")
    case True
    then obtain a where a: "x = VRef a" by (cases x) (auto simp: has_id_def)
    with Cons.prems(1) have "proto (obj_at h a) = ObjectPrototype" by (simp add: plain_def)
    with True a have "find_entry h ident (x # xs) = Inr (Some a)"
      by (simp add: read_prop_plain has_id_def)
    with True a show ?thesis
      by (intro exI[of _ 0] exI[of _ a]) simp
  next
    case False
    with Cons.prems have "\<exists>x\<in>set xs. has_id h ident x" by auto
    with Cons.IH Cons.prems(1) obtain i a where ia: "i < length xs" "xs ! i = VRef a"
      "has_id h ident (VRef a)" "\<forall>j<i. \<not> has_id h ident (xs ! j)"
      "find_entry h ident xs = Inr (Some a)" by auto
    have skip: "find_entry h ident (x # xs) = find_entry h ident xs"
      using False Cons.prems(1)
      by (cases x) (auto simp: has_id_def plain_def read_prop_plain)
    have "\<forall>j<Suc i. \<not> has_id h ident ((x # xs) ! j)"
      using False ia(4) by (auto simp: less_Suc_eq_0_disj)
    with ia skip show ?thesis
      by (intro exI[of _ "Suc i"] exI[of _ a]) simp
  qed
qed

lemma isArray_collection: "isArray (get_prop d key) \<Longrightarrow> get_prop d key = Some (VArr (collection d key))"
  by (cases "get_prop d key" rule: isArray.cases) (simp_all add: collection_def)

lemma find_in_collections_none:
  "\<forall>key\<in>set keys. isArray (get_prop d key) \<Longrightarrow>
   \<forall>x\<in>set (concat (map (collection d) keys)). x \<noteq> VNull \<and> plain h x \<Longrightarrow>
   \<forall>x\<in>set (concat (map (collection d) keys)). \<not> has_id h ident x \<Longrightarrow>
   find_in_collections h keys ident d = Inr None"
proof (induction keys)
  case Nil
  then show ?case by simp
next
  case (Cons key keys)
  have g: "get_prop d key = Some (VArr (collection d key))"
    using Cons.prems(1) by (simp add: isArray_collection)
  have "find_entry h ident (collection d key) = Inr None"
    using Cons.prems(2,3) by (intro find_entry_none) auto
  moreover have "find_in_collections h keys ident d = Inr None"
    using Cons.prems by (intro Cons.IH) auto
  ultimately show ?case using g by simp
qed

lemma find_in_collections_some:
  "\<forall>key\<in>set keys. isArray (get_prop d key) \<Longrightarrow>
   \<forall>x\<in>set (concat (map (collection d) keys)). x \<noteq> VNull \<and> plain h x \<Longrightarrow>
   \<exists>x\<in>set (concat (map (collection d) keys)). has_id h ident x \<Longrightarrow>
   \<exists>i a. i < length (concat (map (collection d) keys)) \<and>
         concat (map (collection d) keys) ! i = VRef a \<and> has_id h ident (VRef a) \<and>
         (\<forall>j<i. \<not> has_id h ident (concat (map (collection d) keys) ! j)) \<and>
         find_in_collections h keys ident d = Inr (Some a)"
proof (induction keys)
  case Nil
  then show ?case by simp
next
  case (Cons key keys)
  let ?xs = "collection d key" and ?rest = "concat (map (collection d) keys)"
  have g: "get_prop d key = Some (VArr ?xs)"
    using Cons.prems(1) by (simp add: isArray_collection)
  have ok: "\<forall>x\<in>set ?xs. x \<noteq> VNull \<and> plain h x"
    using Cons.prems(2) by auto
  show ?case
  proof (cases "\<exists>x\<in>set ?xs. has_id h ident x")
    case True
    from find_entry_some[OF ok True] obtain i a where ia: "i < length ?xs" "?xs ! i = VRef a"
      "has_id h ident (VRef a)" "\<forall>j<i. \<not> has_id h ident (?xs ! j)"
      "find_entry h ident ?xs = Inr (Some a)" by auto
    have "\<forall>j<i. \<not> has_id h ident ((?xs @ ?rest) ! j)"
      using ia(1,4) by (simp add: nth_append)
    with ia g show ?thesis
      by (intro exI[of _ i] exI[of _ a]) (simp add: nth_append)
  next
    case False
    then have none: "find_entry h ident ?xs = Inr None"
      using ok by (intro find_entry_none) auto
    from False Cons.prems(3) have "\<exists>x\<in>set ?rest. has_id h ident x" by auto
    with Cons.IH Cons.prems(1,2) obtain i a where ia: "i < length ?rest" "?rest ! i = VRef a"
      "has_id h ident (VRef a)" "\<forall>j<i. \<not> has_id h ident (?rest ! j)"
      "find_in_collections h keys ident d = Inr (Some a)" by auto
    have "\<forall>j<length ?xs + i. \<not> has_id h ident ((?xs @ ?rest) ! j)"
    proof (intro allI impI)
      fix j assume "j < length ?xs + i"
      show "\<not> has_id h ident ((?xs @ ?rest) ! j)"
      proof (cases "j < length ?xs")
        case True
        with False show ?thesis by (auto simp: nth_append)
      next
        case False
        with \<open>j < length ?xs + i\<close> have "j - length ?xs < i" by simp
        with ia(4) False show ?thesis by (simp add: nth_append)
      qed
    qed
    with ia g none show ?thesis
      by (intro exI[of _ "length ?xs + i"] exI[of _ a]) (simp add: nth_append)
  qed
qed

lemma valid_pluralKeys: "structurally_valid d \<Longrightarrow> \<forall>key\<in>set pluralKeys. isArray (get_prop d key)"
  by (simp add: structurally_valid_def pluralKeys_def)

text \<open>The merge loop when no key is \<open>__proto__\<close>: every assignment sets an own property.\<close>

lemma assign_plain: "k \<noteq> ''__proto__'' \<Longrightarrow> assign a k v h = Inr (set_own a k v h)"
  by (simp add: assign_def)

lemma set_own_valid:
  "a < length h \<Longrightarrow> set_own a k v h = h[a := (h ! a)\<lparr>own := put k v (own (h ! a))\<rparr>]"
  by (simp add: set_own_def obj_at_def)

lemma assign_fields_plain:
  "''__proto__'' \<notin> set ks \<Longrightarrow> a < length h \<Longrightarrow>
   \<exists>ps. assign_fields ks fs a h = (None, h[a := (h ! a)\<lparr>own := ps\<rparr>]) \<and>
        (\<forall>k. map_of ps k =
               (if k \<in> set ks then (case map_of fs k of Some v \<Rightarrow> Some v | None \<Rightarrow> map_of (own (h ! a)) k)
                else map_of (own (h ! a)) k))"
proof (induction ks arbitrary: h)
  case Nil
  have "h[a := (h ! a)\<lparr>own := own (h ! a)\<rparr>] = h" by simp
  then show ?case by (intro exI[of _ "own (h ! a)"]) simp
next
  case (Cons f ks)
  show ?case
  proof (cases "map_of fs f")
    case None
    from Cons.IH[of h] Cons.prems obtain ps where ps:
      "assign_fields ks fs a h = (None, h[a := (h ! a)\<lparr>own := ps\<rparr>])"
      "\<forall>k. map_of ps k =
               (if k \<in> set ks then (case map_of fs k of Some v \<Rightarrow> Some v | None \<Rightarrow> map_of (own (h ! a)) k)
                else map_of (own (h ! a)) k)" by auto
    show ?thesis
      using None ps by (intro exI[of _ ps]) auto
  next
    case (Some v)
    let ?h1 = "h[a := (h ! a)\<lparr>own := put f v (own (h ! a))\<rparr>]"
    have "f \<noteq> ''__proto__''" using Cons.prems by auto
    then have a1: "assign a f v h = Inr ?h1"
      using Cons.prems(2) by (simp add: assign_plain set_own_valid)
    have len: "a < length ?h1" using Cons.prems by simp
    from Cons.IH[of ?h1] Cons.prems len obtain ps where ps:
      "assign_fields ks fs a ?h1 = (None, ?h1[a := (?h1 ! a)\<lparr>own := ps\<rparr>])"
      "\<forall>k. map_of ps k =
               (if k \<in> set ks then (case map_of fs k of Some v \<Rightarrow> Some v | None \<Rightarrow> map_of (own (?h1 ! a)) k)
                else map_of (own (?h1 ! a)) k)" by auto
    have h2: "?h1[a := (?h1 ! a)\<lparr>own := ps\<rparr>] = h[a := (h ! a)\<lparr>own := ps\<rparr>]"
      using Cons.prems by simp
    have "\<forall>k. map_of ps k =
               (if k \<in> set (f # ks) then (case map_of fs k of Some v \<Rightarrow> Some v | None \<Rightarrow> map_of (own (h ! a)) k)
                else map_of (own (h ! a)) k)"
      using ps(2) Some Cons.prems by (auto simp: map_of_put split: option.splits)
    with Some a1 ps(1) h2 show ?thesis
      by (intro exI[of _ ps]) simp
  qed
qed

lemma obj_at_update:
  "obj_at (h[a := ob]) b = (if b = a \<and> a < length h then ob else obj_at h b)"
  by (auto simp: obj_at_def)

text \<open>
  C5 (amended). \<open>update\<close> returns \<open>null\<close> and changes nothing when \<open>_data\<close> is \<open>null\<close> or the
  id is empty. Otherwise, in a valid snapshot whose elements are not \<open>null\<close> and are plain,
  and for fields that do not name \<open>__proto__\<close>: if some element has the id, the first such
  element in search order is an object of the heap, this object is returned, the state is
  saved, and the heap differs from the former one at this object only, whose prototype is
  kept and whose own properties are the given ones for the keys given and the former ones for
  every other key; \<open>_data\<close> is the same, so every collection holds the same elements. If no
  element has the id, \<open>update\<close> returns \<open>null\<close> and changes nothing.
\<close>

theorem update_partial_merge:
  "(data st = None \<or> ident = [] \<longrightarrow> update ident given st = (Inr None, st)) \<and>
   (data st = Some d \<and> structurally_valid d \<and> ident \<noteq> [] \<and>
    (\<forall>x\<in>set (entries d). x \<noteq> VNull \<and> plain (heap st) x) \<and>
    fs = own_entries (heap st) given \<and> ''__proto__'' \<notin> fst ` set fs \<longrightarrow>
      ((\<exists>x\<in>set (entries d). has_id (heap st) ident x) \<longrightarrow>
         (\<exists>i a h'. i < length (entries d) \<and> entries d ! i = VRef a \<and>
                has_id (heap st) ident (VRef a) \<and>
                (\<forall>j<i. \<not> has_id (heap st) ident (entries d ! j)) \<and>
                update ident given st = (Inr (Some (VRef a)), save (st\<lparr>heap := h'\<rparr>)) \<and>
                data (snd (update ident given st)) = Some d \<and>
                heap (snd (update ident given st)) = h' \<and>
                length h' = length (heap st) \<and>
                (\<forall>b. b \<noteq> a \<longrightarrow> obj_at h' b = obj_at (heap st) b) \<and>
                proto (obj_at h' a) = proto (obj_at (heap st) a) \<and>
                (\<forall>k. own_field h' a k =
                       (case map_of fs k of Some v \<Rightarrow> Some v | None \<Rightarrow> own_field (heap st) a k)))) \<and>
      (\<not> (\<exists>x\<in>set (entries d). has_id (heap st) ident x) \<longrightarrow>
         update ident given st = (Inr None, st)))"
proof (intro conjI impI)
  assume "data st = None \<or> ident = []"
  then show "update ident given st = (Inr None, st)"
    by (auto simp: update_def split: option.splits)
next
  assume a: "data st = Some d \<and> structurally_valid d \<and> ident \<noteq> [] \<and>
    (\<forall>x\<in>set (entries d). x \<noteq> VNull \<and> plain (heap st) x) \<and>
    fs = own_entries (heap st) given \<and> ''__proto__'' \<notin> fst ` set fs"
  then have arrays: "\<forall>key\<in>set pluralKeys. isArray (get_prop d key)"
    by (simp add: valid_pluralKeys)
  have ok: "\<forall>x\<in>set (concat (map (collection d) pluralKeys)). x \<noteq> VNull \<and> plain (heap st) x"
    using a by (simp add: entries_def)
  {
    assume "\<exists>x\<in>set (entries d). has_id (heap st) ident x"
    then have "\<exists>x\<in>set (concat (map (collection d) pluralKeys)). has_id (heap st) ident x"
      by (simp add: entries_def)
    from find_in_collections_some[OF arrays ok this]
    obtain i a' where ia: "i < length (entries d)" "entries d ! i = VRef a'"
      "has_id (heap st) ident (VRef a')" "\<forall>j<i. \<not> has_id (heap st) ident (entries d ! j)"
      "find_in_collections (heap st) pluralKeys ident d = Inr (Some a')"
      by (auto simp: entries_def)
    from ia(3) have len: "a' < length (heap st)"
      by (auto simp: has_id_def dest: own_field_valid)
    have nk: "''__proto__'' \<notin> set (map fst fs)" using a by auto
    from assign_fields_plain[OF nk len, of fs] obtain ps where ps:
      "assign_fields (map fst fs) fs a' (heap st) =
         (None, (heap st)[a' := (heap st ! a')\<lparr>own := ps\<rparr>])"
      "\<forall>k. map_of ps k =
             (if k \<in> set (map fst fs)
              then (case map_of fs k of Some v \<Rightarrow> Some v | None \<Rightarrow> map_of (own (heap st ! a')) k)
              else map_of (own (heap st ! a')) k)" by auto
    let ?h' = "(heap st)[a' := (heap st ! a')\<lparr>own := ps\<rparr>]"
    have u: "update ident given st = (Inr (Some (VRef a')), save (st\<lparr>heap := ?h'\<rparr>))"
      using a ia(5) ps(1) by (simp add: update_def Let_def)
    have f: "\<forall>k. own_field ?h' a' k =
               (case map_of fs k of Some v \<Rightarrow> Some v | None \<Rightarrow> own_field (heap st) a' k)"
    proof
      fix k
      have "k \<notin> set (map fst fs) \<Longrightarrow> map_of fs k = None"
        by (simp add: map_of_eq_None_iff)
      then show "own_field ?h' a' k =
               (case map_of fs k of Some v \<Rightarrow> Some v | None \<Rightarrow> own_field (heap st) a' k)"
        using ps(2) len by (auto simp: own_field_def obj_at_def split: option.splits)
    qed
    have "i < length (entries d) \<and> entries d ! i = VRef a' \<and>
          has_id (heap st) ident (VRef a') \<and>
          (\<forall>j<i. \<not> has_id (heap st) ident (entries d ! j)) \<and>
          update ident given st = (Inr (Some (VRef a')), save (st\<lparr>heap := ?h'\<rparr>)) \<and>
          data (snd (update ident given st)) = Some d \<and>
          heap (snd (update ident given st)) = ?h' \<and>
          length ?h' = length (heap st) \<and>
          (\<forall>b. b \<noteq> a' \<longrightarrow> obj_at ?h' b = obj_at (heap st) b) \<and>
          proto (obj_at ?h' a') = proto (obj_at (heap st) a') \<and>
          (\<forall>k. own_field ?h' a' k =
                 (case map_of fs k of Some v \<Rightarrow> Some v | None \<Rightarrow> own_field (heap st) a' k))"
      using ia(1-4) u f a len
      by (simp add: data_save heap_save obj_at_update) (simp add: obj_at_def)
    then show "\<exists>i a h'. i < length (entries d) \<and> entries d ! i = VRef a \<and>
                has_id (heap st) ident (VRef a) \<and>
                (\<forall>j<i. \<not> has_id (heap st) ident (entries d ! j)) \<and>
                update ident given st = (Inr (Some (VRef a)), save (st\<lparr>heap := h'\<rparr>)) \<and>
                data (snd (update ident given st)) = Some d \<and>
                heap (snd (update ident given st)) = h' \<and>
                length h' = length (heap st) \<and>
                (\<forall>b. b \<noteq> a \<longrightarrow> obj_at h' b = obj_at (heap st) b) \<and>
                proto (obj_at h' a) = proto (obj_at (heap st) a) \<and>
                (\<forall>k. own_field h' a k =
                       (case map_of fs k of Some v \<Rightarrow> Some v | None \<Rightarrow> own_field (heap st) a k))"
      by blast
  }
  {
    assume "\<not> (\<exists>x\<in>set (entries d). has_id (heap st) ident x)"
    then have "\<forall>x\<in>set (concat (map (collection d) pluralKeys)). \<not> has_id (heap st) ident x"
      by (simp add: entries_def)
    from find_in_collections_none[OF arrays ok this] a
    show "update ident given st = (Inr None, st)"
      by (simp add: update_def)
  }
qed

lemma data_update: "data (snd (update ident given st)) = data st"
  by (simp add: update_def Let_def data_save split: option.split sum.split prod.split)

lemma data_updates: "data (updates calls st) = data st"
  by (induction calls arbitrary: st) (simp_all add: data_update)

lemma own_field_update:
  "own_field (h[a := ob]) b k = (if b = a \<and> a < length h then map_of (own ob) k else own_field h b k)"
  by (simp add: own_field_def obj_at_update)

text \<open>One assignment changes at most the own property it names, of the object it is made to.\<close>

lemma assign_own_field:
  assumes "assign a k v h = Inr h'"
  shows "length h' = length h"
    and "own_field h' b k' = own_field h b k' \<or> (b = a \<and> k' = k \<and> own_field h' b k' = Some v)"
proof -
  have s: "own_field (set_own a k v h) b k' = own_field h b k' \<or>
           (b = a \<and> k' = k \<and> own_field (set_own a k v h) b k' = Some v)"
    by (auto simp: set_own_def own_field_update map_of_put) (simp add: own_field_def)
  have p: "own_field (set_proto a q h) b k' = own_field h b k'" for q
    by (auto simp: set_proto_def own_field_update) (simp add: own_field_def)
  have l: "length (set_own a k v h) = length h" "length (set_proto a q h) = length h" for q
    by (simp_all add: set_own_def set_proto_def)
  from assms show "length h' = length h"
    by (auto simp: assign_def l split: if_splits jsval.splits)
  from assms s p show "own_field h' b k' = own_field h b k' \<or>
      (b = a \<and> k' = k \<and> own_field h' b k' = Some v)"
    by (auto simp: assign_def split: if_splits jsval.splits)
qed

lemma assign_fields_length: "assign_fields ks fs a h = (r, h') \<Longrightarrow> length h' = length h"
proof (induction ks arbitrary: h)
  case Nil
  then show ?case by simp
next
  case (Cons f ks)
  show ?case
  proof (cases "map_of fs f")
    case None
    with Cons show ?thesis by simp
  next
    case (Some v)
    show ?thesis
    proof (cases "assign a f v h")
      case (Inl err)
      with Some Cons.prems show ?thesis by simp
    next
      case (Inr h1)
      with Some Cons.prems have "assign_fields ks fs a h1 = (r, h')" by simp
      from Cons.IH[OF this] assign_own_field(1)[OF Inr] show ?thesis by simp
    qed
  qed
qed

text \<open>
  The merge loop, however it ends: an own property of an object has afterwards the value it
  had, or it is a property of the entry and has the value the fields give it.
\<close>

lemma assign_fields_own_field:
  "assign_fields ks fs a h = (r, h') \<Longrightarrow>
   own_field h' b k = own_field h b k \<or>
   (b = a \<and> (\<exists>v. map_of fs k = Some v \<and> own_field h' b k = Some v))"
proof (induction ks arbitrary: h)
  case Nil
  then show ?case by simp
next
  case (Cons f ks)
  show ?case
  proof (cases "map_of fs f")
    case None
    with Cons show ?thesis by simp
  next
    case (Some v)
    show ?thesis
    proof (cases "assign a f v h")
      case (Inl err)
      with Some Cons.prems show ?thesis by simp
    next
      case (Inr h1)
      with Some Cons.prems have r: "assign_fields ks fs a h1 = (r, h')" by simp
      from Cons.IH[OF r] assign_own_field(2)[OF Inr, of b k] Some show ?thesis
        by auto
    qed
  qed
qed

text \<open>When the merge loop ends without a throw, a key it was given has the value given.\<close>

lemma assign_fields_sets:
  "assign_fields ks fs a h = (None, h') \<Longrightarrow> a < length h \<Longrightarrow> k \<in> set ks \<Longrightarrow>
   k \<noteq> ''__proto__'' \<Longrightarrow> map_of fs k = Some v \<Longrightarrow> own_field h' a k = Some v"
proof (induction ks arbitrary: h)
  case Nil
  then show ?case by simp
next
  case (Cons f ks)
  show ?case
  proof (cases "map_of fs f")
    case None
    with Cons.prems have "k \<in> set ks" by auto
    with Cons None show ?thesis by simp
  next
    case (Some w)
    from Cons.prems(1) Some obtain h1 where h1: "assign a f w h = Inr h1"
      "assign_fields ks fs a h1 = (None, h')"
      by (cases "assign a f w h") simp_all
    have len: "a < length h1"
      using assign_own_field(1)[OF h1(1)] Cons.prems(2) by simp
    show ?thesis
    proof (cases "k \<in> set ks")
      case True
      from Cons.IH[OF h1(2) len True Cons.prems(4,5)] show ?thesis .
    next
      case False
      with Cons.prems(3) have fk: "f = k" by simp
      with Some Cons.prems(5) have wv: "w = v" by simp
      from h1(1) fk wv Cons.prems(4) have "h1 = set_own a k v h"
        by (simp add: assign_def)
      then have "own_field h1 a k = Some v"
        using Cons.prems(2) by (simp add: set_own_def own_field_update map_of_put)
      with assign_fields_own_field[OF h1(2), of a k] Cons.prems(5) show ?thesis
        by auto
    qed
  qed
qed

lemma read_prop_valid: "read_prop h (VRef a) k = Some v \<Longrightarrow> a < length h"
proof (rule ccontr)
  assume r: "read_prop h (VRef a) k = Some v" and "\<not> a < length h"
  then have "obj_at h a = \<lparr>own = [], proto = ObjectPrototype\<rparr>"
    by (simp add: obj_at_def)
  then have "read_prop h (VRef a) k = None"
    by (simp add: read_prop_def chain_def)
  with r show False by simp
qed

lemma find_entry_found:
  "find_entry h ident xs = Inr (Some a) \<Longrightarrow> read_prop h (VRef a) ''id'' = Some (VStr ident)"
  by (induction h ident xs rule: find_entry.induct) (auto split: if_splits)

lemma find_in_collections_found:
  "find_in_collections h keys ident d = Inr (Some a) \<Longrightarrow>
   read_prop h (VRef a) ''id'' = Some (VStr ident)"
proof (induction keys)
  case Nil
  then show ?case by simp
next
  case (Cons key keys)
  then show ?case
    by (auto simp: find_entry_found split: option.splits jsval.splits sum.splits)
qed

text \<open>What one \<open>update\<close> does to the heap: the result of the merge loop on the entry it found.\<close>

lemma update_heap:
  "heap (snd (update ident given st)) = heap st \<and> (\<forall>a. fst (update ident given st) \<noteq> Inr (Some (VRef a))) \<or>
   (\<exists>a r. a < length (heap st) \<and>
      assign_fields (map fst (own_entries (heap st) given)) (own_entries (heap st) given) a (heap st) =
        (r, heap (snd (update ident given st))) \<and>
      (case r of None \<Rightarrow> fst (update ident given st) = Inr (Some (VRef a))
       | Some err \<Rightarrow> fst (update ident given st) = Inl err))"
proof (cases "data st")
  case None
  then show ?thesis by (simp add: update_def)
next
  case (Some d)
  show ?thesis
  proof (cases "ident = []")
    case True
    with Some show ?thesis by (simp add: update_def)
  next
    case False
    show ?thesis
    proof (cases "find_in_collections (heap st) pluralKeys ident d")
      case (Inl err)
      with Some False show ?thesis by (simp add: update_def)
    next
      case (Inr found)
      show ?thesis
      proof (cases found)
        case None
        with Some False Inr show ?thesis by (simp add: update_def)
      next
        case (Some a)
        with Inr have "a < length (heap st)"
          by (auto dest: find_in_collections_found read_prop_valid)
        moreover obtain r h' where
          m: "assign_fields (map fst (own_entries (heap st) given)) (own_entries (heap st) given)
                a (heap st) = (r, h')"
          by (cases "assign_fields (map fst (own_entries (heap st) given))
                       (own_entries (heap st) given) a (heap st)")
        ultimately show ?thesis
          using \<open>data st = Some d\<close> False Inr Some
          by (cases r) (auto simp: update_def Let_def heap_save)
      qed
    qed
  qed
qed

lemma collection_set_prop:
  "collection (set_prop key (VArr ys) d) k = (if k = key then ys else collection d k)"
  by (simp add: collection_def get_prop_set_prop)

lemma TYPE_MAP_Plural: "TYPE_MAP t = Plural key \<Longrightarrow> key \<in> set pluralKeys"
  by (auto simp: TYPE_MAP_def pluralKeys_def split: if_splits)

lemma data_or_empty_collection:
  "collection (data_or_empty st) key = collection_of st key"
  by (cases "data st")
     (simp_all add: data_or_empty_def collection_of_def collection_def ensureStructure_def
       ensure_array_def get_prop_def set_prop_def)

text \<open>
  An \<open>add\<close> that returns an entry has returned the object it was given and appended it to the
  collection named by the \<open>type\<close> it read from it.
\<close>

lemma add_appends:
  assumes "add env entry st = (Inr (Some e), st1)"
  shows "\<exists>key\<in>set pluralKeys. \<exists>t a.
           e = entry \<and> entry = VRef a \<and> read_prop (heap st) entry ''type'' = Some t \<and>
           TYPE_MAP (to_string t) = Plural key \<and>
           collection_of st1 key = collection_of st key @ [e] \<and>
           (\<forall>k. k \<noteq> key \<longrightarrow> collection_of st1 k = collection_of st k)"
proof -
  from assms obtain a where a: "entry = VRef a"
    by (cases entry) (simp_all add: add_def)
  from assms a obtain t where t: "read_prop (heap st) entry ''type'' = Some t"
    by (cases "read_prop (heap st) entry ''type''") (simp_all add: add_def)
  from assms a t have tr: "truthy_val (Some t)"
    by (auto simp: add_def split: if_splits)
  from assms a t tr obtain key where key: "TYPE_MAP (to_string t) = Plural key"
    by (cases "TYPE_MAP (to_string t)") (simp_all add: add_def)
  define d where "d = data_or_empty st"
  define h' where "h' = default_field ''date'' (today_iso env) a
                          (default_field ''id'' (generated_id env) a (heap st))"
  from assms a t tr key obtain xs where xs: "get_prop d key = Some (VArr xs)"
    and r: "e = entry"
      "st1 = save (st\<lparr>data := Some (set_prop key (VArr (xs @ [entry])) d), heap := h'\<rparr>)"
    unfolding d_def h'_def
    by (auto simp: add_def Let_def split: option.splits jsval.splits)
  have c: "collection d k = collection_of st k" for k
    by (simp add: d_def data_or_empty_collection)
  have x: "collection d key = xs"
    using xs by (simp add: collection_def)
  have "collection_of st1 k = (if k = key then xs @ [entry] else collection d k)" for k
    by (simp add: r(2) collection_of_def data_save collection_set_prop)
  with c x r(1) a t key TYPE_MAP_Plural[OF key] show ?thesis
    by auto
qed

lemma update_type_unless_named:
  "own_field (heap (snd (update ident given st))) b k = own_field (heap st) b k \<or>
   (\<exists>v. map_of (own_entries (heap st) given) k = Some v \<and>
        own_field (heap (snd (update ident given st))) b k = Some v)"
  using update_heap[of ident given st]
  by (auto dest: assign_fields_own_field[where b = b and k = k])

lemma keeps_type_updates:
  "keeps_type a calls st \<Longrightarrow>
   own_field (heap (updates calls st)) a ''type'' = own_field (heap st) a ''type''"
proof (induction calls arbitrary: st)
  case Nil
  then show ?case by simp
next
  case (Cons c calls)
  let ?st1 = "snd (update (fst c) (snd c) st)"
  from Cons.prems have k: "keeps_type a calls ?st1"
    and n: "case map_of (own_entries (heap st) (snd c)) ''type'' of None \<Rightarrow> True
            | Some v \<Rightarrow> own_field (heap st) a ''type'' = Some v"
    by simp_all
  from update_type_unless_named[of "fst c" "snd c" st a "''type''"] n
  have "own_field (heap ?st1) a ''type'' = own_field (heap st) a ''type''"
    by (auto split: option.splits)
  with Cons.IH[OF k] show ?case by simp
qed

lemma update_sets_named:
  assumes "fst (update ident given st) = Inr (Some (VRef a))"
    and "map_of (own_entries (heap st) given) k = Some v" and "k \<noteq> ''__proto__''"
  shows "own_field (heap (snd (update ident given st))) a k = Some v"
proof -
  from update_heap[of ident given st] assms(1) obtain a' r where
    m: "a' < length (heap st)"
      "assign_fields (map fst (own_entries (heap st) given)) (own_entries (heap st) given) a' (heap st) =
        (r, heap (snd (update ident given st)))"
      "case r of None \<Rightarrow> fst (update ident given st) = Inr (Some (VRef a'))
       | Some err \<Rightarrow> fst (update ident given st) = Inl err"
    by auto
  from m(3) assms(1) have r: "r = None" "a' = a"
    by (cases r; simp)+
  have "k \<in> set (map fst (own_entries (heap st) given))"
    using assms(2) by (metis map_of_eq_None_iff option.distinct(1) set_map)
  from assign_fields_sets[OF m(2)[unfolded r] m(1)[unfolded r] this assms(3,2)]
  show ?thesis .
qed

lemma assign_other: "assign a k v h = Inr h' \<Longrightarrow> b \<noteq> a \<Longrightarrow> obj_at h' b = obj_at h b"
  by (auto simp: assign_def set_own_def set_proto_def obj_at_update split: if_splits jsval.splits)

lemma assign_fields_other:
  "assign_fields ks fs a h = (r, h') \<Longrightarrow> b \<noteq> a \<Longrightarrow> obj_at h' b = obj_at h b"
proof (induction ks arbitrary: h)
  case Nil
  then show ?case by simp
next
  case (Cons f ks)
  show ?case
  proof (cases "map_of fs f")
    case None
    with Cons show ?thesis by simp
  next
    case (Some v)
    show ?thesis
    proof (cases "assign a f v h")
      case (Inl err)
      with Some Cons.prems show ?thesis by simp
    next
      case (Inr h1)
      with Some Cons.prems have "assign_fields ks fs a h1 = (r, h')" by simp
      from Cons.IH[OF this Cons.prems(2)] assign_other[OF Inr Cons.prems(2)] show ?thesis
        by simp
    qed
  qed
qed

text \<open>An \<open>update\<close> that returns \<open>null\<close> or another entry leaves the object as it is.\<close>

lemma update_other_entry:
  assumes "fst (update ident given st) = Inr r" and "r \<noteq> Some (VRef a)"
  shows "obj_at (heap (snd (update ident given st))) a = obj_at (heap st) a"
proof -
  from update_heap[of ident given st]
  consider "heap (snd (update ident given st)) = heap st"
    | a' r' where "assign_fields (map fst (own_entries (heap st) given))
                     (own_entries (heap st) given) a' (heap st) =
                       (r', heap (snd (update ident given st)))"
        "case r' of None \<Rightarrow> fst (update ident given st) = Inr (Some (VRef a'))
         | Some err \<Rightarrow> fst (update ident given st) = Inl err"
    by blast
  then show ?thesis
  proof cases
    case 1
    then show ?thesis by simp
  next
    case 2
    from 2(2) assms have "a' \<noteq> a"
      by (cases r') auto
    then show ?thesis
      using assign_fields_other[OF 2(1)] by simp
  qed
qed

lemmas store_eval =
  create_def add_def update_def Let_def save_def TYPE_MAP_def default_field_def read_prop_def
  chain_def chain_end_def reaches_setter_def assign_def obj_at_def set_own_def set_proto_def
  data_or_empty_def serialize_def fields_to_json_def ensureStructure_def ensure_array_def
  get_prop_def set_prop_def pluralKeys_def importJSON_def set_data_def JSON_stringify_def

lemmas update_eval =
  update_def Let_def save_def read_prop_def chain_def chain_end_def reaches_setter_def
  assign_def obj_at_def set_own_def set_proto_def serialize_def fields_to_json_def
  get_prop_def pluralKeys_def JSON_stringify_def TYPE_MAP_def

lemma one_video_X_state:
  "heap one_video_X =
     [\<lparr>own = [(''id'', VStr ''a''), (''type'', VStr ''video''), (''title'', VStr ''First'')],
       proto = ObjectPrototype\<rparr>,
      \<lparr>own = [(''title'', VStr ''X'')], proto = ObjectPrototype\<rparr>]"
  "data one_video_X =
     Some \<lparr>indexed = None,
           props = [(''videos'', VArr [VRef 0]), (''screenshots'', VArr []),
                    (''posts'', VArr []), (''streams'', VArr [])]\<rparr>"
  by (simp_all add: one_video_X_def one_video_def title_X_def create_def)

theorem update_partial_merge_witness:
  "fst (update ''a'' (VRef 1) one_video_X) = Inr (Some (VRef 0)) \<and>
   collection_of (snd (update ''a'' (VRef 1) one_video_X)) ''videos'' = [VRef 0] \<and>
   own_field (heap (snd (update ''a'' (VRef 1) one_video_X))) 0 ''title'' = Some (VStr ''X'') \<and>
   own_field (heap (snd (update ''a'' (VRef 1) one_video_X))) 0 ''type'' = Some (VStr ''video'') \<and>
   own_field (heap (snd (update ''a'' (VRef 1) one_video_X))) 0 ''id'' = Some (VStr ''a'') \<and>
   obj_at (heap (snd (update ''a'' (VRef 1) one_video_X))) 1 = obj_at (heap one_video_X) 1 \<and>
   update ''b'' (VRef 1) one_video_X = (Inr None, one_video_X)"
proof -
  let ?d = "\<lparr>indexed = None,
             props = [(''videos'', VArr [VRef 0]), (''screenshots'', VArr []),
                      (''posts'', VArr []), (''streams'', VArr [])]\<rparr>"
  let ?fs = "[(''title'', VStr ''X'')]"
  let ?h = "heap one_video_X"
  have d: "data one_video_X = Some ?d" by (simp add: one_video_X_state)
  have v: "structurally_valid ?d" by (simp add: structurally_valid_def get_prop_def)
  have en: "entries ?d = [VRef 0]"
    by (simp add: entries_def pluralKeys_def collection_def get_prop_def)
  have pl: "\<forall>x\<in>set (entries ?d). x \<noteq> VNull \<and> plain ?h x"
    unfolding en by (simp add: plain_def one_video_X_state obj_at_def)
  have fs: "?fs = own_entries ?h (VRef 1)" "''__proto__'' \<notin> fst ` set ?fs"
    by (simp_all add: one_video_X_state obj_at_def)
  have a: "\<exists>x\<in>set (entries ?d). has_id ?h ''a'' x"
    unfolding en by (simp add: has_id_def own_field_def one_video_X_state obj_at_def)
  have b: "\<not> (\<exists>x\<in>set (entries ?d). has_id ?h ''b'' x)"
    unfolding en by (simp add: has_id_def own_field_def one_video_X_state obj_at_def)
  have i: "''a'' \<noteq> []" "''b'' \<noteq> []" by simp_all
  have o: "own_field ?h 0 k = map_of [(''id'', VStr ''a''), (''type'', VStr ''video''),
                                       (''title'', VStr ''First'')] k" for k
    by (simp add: own_field_def one_video_X_state obj_at_def)
  have hyp: "data one_video_X = Some ?d \<and> structurally_valid ?d \<and> ident \<noteq> [] \<and>
      (\<forall>x\<in>set (entries ?d). x \<noteq> VNull \<and> plain ?h x) \<and>
      ?fs = own_entries ?h (VRef 1) \<and> ''__proto__'' \<notin> fst ` set ?fs"
    if "ident \<noteq> []" for ident
    using d v pl fs that by blast
  from update_partial_merge[of one_video_X "''a''" "VRef 1" ?d ?fs,
         THEN conjunct2, THEN mp, OF hyp[OF i(1)], THEN conjunct1, THEN mp, OF a]
  obtain i a h' where
    k: "i < length (entries ?d)" "entries ?d ! i = VRef a"
      "update ''a'' (VRef 1) one_video_X = (Inr (Some (VRef a)), save (one_video_X\<lparr>heap := h'\<rparr>))"
      "data (snd (update ''a'' (VRef 1) one_video_X)) = Some ?d"
      "heap (snd (update ''a'' (VRef 1) one_video_X)) = h'"
      "\<forall>b. b \<noteq> a \<longrightarrow> obj_at h' b = obj_at ?h b"
      "\<forall>k. own_field h' a k = (case map_of ?fs k of Some v \<Rightarrow> Some v | None \<Rightarrow> own_field ?h a k)"
    by blast
  from k(1,2) have a0: "a = 0" unfolding en by simp
  from update_partial_merge[of one_video_X "''b''" "VRef 1" ?d ?fs,
         THEN conjunct2, THEN mp, OF hyp[OF i(2)], THEN conjunct2, THEN mp, OF b]
  have "update ''b'' (VRef 1) one_video_X = (Inr None, one_video_X)" .
  with k a0 show ?thesis
    by (simp add: o collection_of_def collection_def get_prop_def)
qed

text \<open>
  The claim as stated fails for the empty id. The store has imported a file in which a video
  has the id \<open>""\<close>: the entry is in the videos collection, and \<open>update\<close> with that id returns
  \<open>null\<close> and changes nothing.
\<close>

theorem update_empty_id_counterexample:
  "collection_of blank_id_store ''videos'' = [VRef 0] \<and>
   getAll_json ''video'' blank_id_store = Some (JArr [JObj [(''id'', JStr []), (''title'', JStr ''A'')]]) \<and>
   has_id (heap blank_id_store) [] (VRef 0) \<and>
   to_json (heap blank_id_store) [] (VRef 1) = Some (JObj [(''title'', JStr ''X'')]) \<and>
   update [] (VRef 1) blank_id_store = (Inr None, blank_id_store)"
  by (simp add: blank_id_store_def blank_id_file_def title_X_def empty_store_def store_eval
      collection_of_def collection_def has_id_def own_field_def getAll_json_def getAll_def)

text \<open>
  An object that was added twice is one object: an \<open>update\<close> by its id shows at both
  positions.
\<close>

lemma update_shared_entry:
  "collection_of twice_added ''videos'' = [VRef 0, VRef 0] \<and>
   fst (update ''id-1'' (VRef 1) twice_added) = Inr (Some (VRef 0)) \<and>
   collection_of (snd (update ''id-1'' (VRef 1) twice_added)) ''videos'' = [VRef 0, VRef 0] \<and>
   getAll_json ''video'' (snd (update ''id-1'' (VRef 1) twice_added)) =
     Some (JArr [JObj [(''type'', JStr ''video''), (''title'', JStr ''X''), (''id'', JStr ''id-1''),
                       (''date'', JStr ''2024-01-01'')],
                 JObj [(''type'', JStr ''video''), (''title'', JStr ''X''), (''id'', JStr ''id-1''),
                       (''date'', JStr ''2024-01-01'')]])"
  by (simp add: twice_added_def hello_video_def title_X_def first_env_def empty_store_def
      store_eval collection_of_def collection_def getAll_json_def getAll_def)

text \<open>
  A key \<open>__proto__\<close> among the fields stores no field: the entry keeps its own properties and
  gets the given object as its prototype.
\<close>

lemma update_proto_key:
  "to_json (heap one_video_proto) [] (VRef 2) = Some proto_fields \<and>
   fst (update ''a'' (VRef 2) one_video_proto) = Inr (Some (VRef 0)) \<and>
   own (obj_at (heap (snd (update ''a'' (VRef 2) one_video_proto))) 0) =
     [(''id'', VStr ''a''), (''type'', VStr ''video''), (''title'', VStr ''First'')] \<and>
   proto (obj_at (heap (snd (update ''a'' (VRef 2) one_video_proto))) 0) = ObjectAt 1 \<and>
   read_prop (heap (snd (update ''a'' (VRef 2) one_video_proto))) (VRef 0) ''title'' =
     Some (VStr ''First'') \<and>
   getAll_json ''video'' (snd (update ''a'' (VRef 2) one_video_proto)) = Some (JArr [video_a])"
  by (simp add: one_video_proto_def one_video_def proto_fields_def video_a_def store_eval
      getAll_json_def getAll_def)

text \<open>
  C6 (amended). An entry that \<open>add\<close> returns is the object it was given, now the last element
  of the collection named by its \<open>type\<close>, and it is there after any sequence of \<open>update\<close>
  calls: \<open>update\<close> never touches \<open>_data\<close>, so every collection holds the same objects at the
  same positions. The own \<open>type\<close> of an object is what it was after a sequence of calls none
  of which names \<open>type\<close> with another value than the object has; after one call it is what
  it was, or it is the value the call names for \<open>type\<close>; it is what it was when the call
  returns \<open>null\<close> or another entry, and it is the value named when the call returns this entry
  and names \<open>type\<close>.
\<close>

theorem update_keeps_collection:
  "(add env entry st = (Inr (Some e), st1) \<longrightarrow>
      (\<exists>key\<in>set pluralKeys. \<exists>t.
          e = entry \<and> read_prop (heap st) entry ''type'' = Some t \<and>
          TYPE_MAP (to_string t) = Plural key \<and>
          collection_of st1 key = collection_of st key @ [e] \<and>
          collection_of (updates calls st1) key = collection_of st key @ [e])) \<and>
   data (updates calls s) = data s \<and>
   (keeps_type a calls s \<longrightarrow>
      own_field (heap (updates calls s)) a ''type'' = own_field (heap s) a ''type'') \<and>
   (own_field (heap (snd (update ident given s))) a ''type'' = own_field (heap s) a ''type'' \<or>
    (\<exists>v. map_of (own_entries (heap s) given) ''type'' = Some v \<and>
         own_field (heap (snd (update ident given s))) a ''type'' = Some v)) \<and>
   (fst (update ident given s) = Inr r \<and> r \<noteq> Some (VRef a) \<longrightarrow>
      own_field (heap (snd (update ident given s))) a ''type'' = own_field (heap s) a ''type'') \<and>
   (fst (update ident given s) = Inr (Some (VRef a)) \<and>
    map_of (own_entries (heap s) given) ''type'' = Some v \<longrightarrow>
      own_field (heap (snd (update ident given s))) a ''type'' = Some v)"
proof (intro conjI impI)
  assume ad: "add env entry st = (Inr (Some e), st1)"
  from add_appends[OF ad] obtain key t where key: "key \<in> set pluralKeys" "e = entry"
    "read_prop (heap st) entry ''type'' = Some t" "TYPE_MAP (to_string t) = Plural key"
    "collection_of st1 key = collection_of st key @ [e]"
    by blast
  have "collection_of (updates calls st1) key = collection_of st1 key"
    by (simp add: collection_of_def data_updates)
  with key show "\<exists>key\<in>set pluralKeys. \<exists>t.
          e = entry \<and> read_prop (heap st) entry ''type'' = Some t \<and>
          TYPE_MAP (to_string t) = Plural key \<and>
          collection_of st1 key = collection_of st key @ [e] \<and>
          collection_of (updates calls st1) key = collection_of st key @ [e]"
    by auto
next
  show "data (updates calls s) = data s"
    by (rule data_updates)
next
  assume "keeps_type a calls s"
  then show "own_field (heap (updates calls s)) a ''type'' = own_field (heap s) a ''type''"
    by (rule keeps_type_updates)
next
  show "own_field (heap (snd (update ident given s))) a ''type'' = own_field (heap s) a ''type'' \<or>
    (\<exists>v. map_of (own_entries (heap s) given) ''type'' = Some v \<and>
         own_field (heap (snd (update ident given s))) a ''type'' = Some v)"
    by (rule update_type_unless_named)
next
  assume "fst (update ident given s) = Inr r \<and> r \<noteq> Some (VRef a)"
  then have "obj_at (heap (snd (update ident given s))) a = obj_at (heap s) a"
    by (intro update_other_entry[of ident given s r a]) simp_all
  then show "own_field (heap (snd (update ident given s))) a ''type'' = own_field (heap s) a ''type''"
    by (simp add: own_field_def)
next
  assume "fst (update ident given s) = Inr (Some (VRef a)) \<and>
    map_of (own_entries (heap s) given) ''type'' = Some v"
  then show "own_field (heap (snd (update ident given s))) a ''type'' = Some v"
    by (intro update_sets_named) simp_all
qed

lemma prepared_state:
  "heap prepared =
     [\<lparr>own = [(''type'', VStr ''video''), (''title'', VStr ''Renamed'')], proto = ObjectPrototype\<rparr>,
      \<lparr>own = [(''gameTag'', VStr ''Minecraft''), (''date'', VStr ''2024-02-02'')],
       proto = ObjectPrototype\<rparr>,
      \<lparr>own = [(''type'', VStr ''video''), (''title'', VStr ''Hello'')], proto = ObjectPrototype\<rparr>]"
  "data prepared = None"
  by (simp_all add: prepared_def create_def empty_store_def hello_video_def tag_fields_def
      rename_fields_def)

lemma add_prepared:
  "fst (add first_env (VRef 2) prepared) = Inr (Some (VRef 2))"
  "heap (snd (add first_env (VRef 2) prepared)) =
     [\<lparr>own = [(''type'', VStr ''video''), (''title'', VStr ''Renamed'')], proto = ObjectPrototype\<rparr>,
      \<lparr>own = [(''gameTag'', VStr ''Minecraft''), (''date'', VStr ''2024-02-02'')],
       proto = ObjectPrototype\<rparr>,
      \<lparr>own = [(''type'', VStr ''video''), (''title'', VStr ''Hello''), (''id'', VStr ''id-1''),
              (''date'', VStr ''2024-01-01'')],
       proto = ObjectPrototype\<rparr>]"
  "data (snd (add first_env (VRef 2) prepared)) =
     Some \<lparr>indexed = None,
           props = [(''videos'', VArr [VRef 2]), (''screenshots'', VArr []),
                    (''posts'', VArr []), (''streams'', VArr [])]\<rparr>"
  by (simp_all add: prepared_state first_env_def store_eval)

theorem update_keeps_collection_witness:
  "fst (add first_env (VRef 2) prepared) = Inr (Some (VRef 2)) \<and>
   keeps_type 2 two_renames (snd (add first_env (VRef 2) prepared)) \<and>
   collection_of (updates two_renames (snd (add first_env (VRef 2) prepared))) ''videos'' = [VRef 2] \<and>
   own_field (heap (updates two_renames (snd (add first_env (VRef 2) prepared)))) 2 ''type'' =
     Some (VStr ''video'') \<and>
   fst (update ''id-1'' (VRef 0) (snd (add first_env (VRef 2) prepared))) = Inr (Some (VRef 2)) \<and>
   own_field (heap (snd (update ''id-1'' (VRef 0) (snd (add first_env (VRef 2) prepared))))) 2 ''type'' =
     Some (VStr ''video'') \<and>
   own_field (heap (snd (update ''id-1'' (VRef 0) (snd (add first_env (VRef 2) prepared))))) 0 ''type'' =
     Some (VStr ''video'')"
proof -
  let ?st1 = "snd (add first_env (VRef 2) prepared)"
  have added: "add first_env (VRef 2) prepared = (Inr (Some (VRef 2)), ?st1)"
    using add_prepared(1) by (simp add: prod_eq_iff)
  have c0: "collection_of prepared k = []" for k
    by (simp add: collection_of_def prepared_state)
  have c1: "collection_of ?st1 k = (if k = ''videos'' then [VRef 2] else [])"
    if "k \<in> set pluralKeys" for k
    using that by (auto simp: add_prepared collection_of_def collection_def get_prop_def pluralKeys_def)
  have t1: "own_field (heap ?st1) 2 ''type'' = Some (VStr ''video'')"
    "own_field (heap ?st1) 0 ''type'' = Some (VStr ''video'')"
    by (simp_all add: own_field_def obj_at_def add_prepared)
  have u1: "fst (update ''id-1'' (VRef 0) ?st1) = Inr (Some (VRef 2))"
    by (simp add: update_def add_prepared pluralKeys_def get_prop_def read_prop_def chain_def
        obj_at_def assign_def set_own_def Let_def)
  have n1: "map_of (own_entries (heap ?st1) (VRef 0)) ''type'' = Some (VStr ''video'')"
    by (simp add: add_prepared obj_at_def)
  have h1: "heap (snd (update ''id-1'' (VRef 0) ?st1)) =
     [\<lparr>own = [(''type'', VStr ''video''), (''title'', VStr ''Renamed'')], proto = ObjectPrototype\<rparr>,
      \<lparr>own = [(''gameTag'', VStr ''Minecraft''), (''date'', VStr ''2024-02-02'')],
       proto = ObjectPrototype\<rparr>,
      \<lparr>own = [(''type'', VStr ''video''), (''title'', VStr ''Renamed''), (''id'', VStr ''id-1''),
              (''date'', VStr ''2024-01-01'')],
       proto = ObjectPrototype\<rparr>]"
    by (simp add: update_def add_prepared pluralKeys_def get_prop_def read_prop_def chain_def
        obj_at_def assign_def set_own_def Let_def heap_save)
  have kt: "keeps_type 2 two_renames ?st1"
    by (simp add: two_renames_def add_prepared(2) h1 own_field_def obj_at_def)
  have ne: "Some (VRef 2) \<noteq> Some (VRef 0)" by simp
  from update_keeps_collection
         [where st = prepared and env = first_env and entry = "VRef 2" and e = "VRef 2"
            and ?st1.0 = ?st1 and calls = two_renames and s = ?st1 and a = 2
            and ident = "''id-1''" and given = "VRef 0" and v = "VStr ''video''"
            and r = "Some (VRef 2)"]
       added kt u1 n1
  obtain key where key: "key \<in> set pluralKeys"
      "collection_of ?st1 key = collection_of prepared key @ [VRef 2]"
      "collection_of (updates two_renames ?st1) key = collection_of prepared key @ [VRef 2]"
    and ty: "own_field (heap (updates two_renames ?st1)) 2 ''type'' = own_field (heap ?st1) 2 ''type''"
    and se: "own_field (heap (snd (update ''id-1'' (VRef 0) ?st1))) 2 ''type'' = Some (VStr ''video'')"
    by auto
  from key(1,2) have v: "key = ''videos''"
    using c1[of key] by (simp add: c0 split: if_splits)
  from update_keeps_collection
         [where s = ?st1 and a = 0 and ident = "''id-1''" and given = "VRef 0"
            and r = "Some (VRef 2)"] u1
  have ot: "own_field (heap (snd (update ''id-1'' (VRef 0) ?st1))) 0 ''type'' =
              own_field (heap ?st1) 0 ''type''"
    by simp
  from add_prepared(1) kt key(3) ty se ot t1 u1 show ?thesis
    by (simp add: v c0)
qed

lemma retype_state:
  "fst (add first_env (VRef 0) retype_store) = Inr (Some (VRef 0))"
  "heap (snd (add first_env (VRef 0) retype_store)) =
     [\<lparr>own = [(''type'', VStr ''video''), (''title'', VStr ''Hello''), (''id'', VStr ''id-1''),
              (''date'', VStr ''2024-01-01'')],
       proto = ObjectPrototype\<rparr>,
      \<lparr>own = [(''type'', VStr ''post'')], proto = ObjectPrototype\<rparr>]"
  "data (snd (add first_env (VRef 0) retype_store)) =
     Some \<lparr>indexed = None,
           props = [(''videos'', VArr [VRef 0]), (''screenshots'', VArr []),
                    (''posts'', VArr []), (''streams'', VArr [])]\<rparr>"
  by (simp_all add: retype_store_def hello_video_def post_fields_def empty_store_def
      first_env_def store_eval)

text \<open>
  The claim as stated fails when the call assigns another \<open>type\<close>: the video that \<open>add\<close>
  stored stays in the videos collection and its \<open>type\<close> becomes \<open>post\<close>.
\<close>

theorem update_type_counterexample:
  "fst (add first_env (VRef 0) retype_store) = Inr (Some (VRef 0)) \<and>
   own_field (heap (snd (add first_env (VRef 0) retype_store))) 0 ''type'' = Some (VStr ''video'') \<and>
   collection_of (snd (add first_env (VRef 0) retype_store)) ''videos'' = [VRef 0] \<and>
   to_json (heap (snd (add first_env (VRef 0) retype_store))) [] (VRef 1) = Some post_fields \<and>
   fst (update ''id-1'' (VRef 1) (snd (add first_env (VRef 0) retype_store))) = Inr (Some (VRef 0)) \<and>
   own_field (heap (snd (update ''id-1'' (VRef 1) (snd (add first_env (VRef 0) retype_store)))))
     0 ''type'' = Some (VStr ''post'') \<and>
   collection_of (snd (update ''id-1'' (VRef 1) (snd (add first_env (VRef 0) retype_store))))
     ''videos'' = [VRef 0] \<and>
   collection_of (snd (update ''id-1'' (VRef 1) (snd (add first_env (VRef 0) retype_store))))
     ''posts'' = [] \<and>
   getAll_json ''video'' (snd (update ''id-1'' (VRef 1) (snd (add first_env (VRef 0) retype_store)))) =
     Some (JArr [JObj [(''type'', JStr ''post''), (''title'', JStr ''Hello''), (''id'', JStr ''id-1''),
                       (''date'', JStr ''2024-01-01'')]])"
  by (simp add: retype_state post_fields_def own_field_def collection_of_def collection_def
      getAll_json_def getAll_def update_eval)

section \<open>Properties of the messaging gateway\<close>

subsection \<open>What a send does to the history\<close>

lemma readArray_saveToHistory:
  "saveToHistory s m display day st = Some st' \<Longrightarrow>
   readArray st' = \<lparr>date = display, dateKey = day, subject = s, preview = make_preview m\<rparr> # readArray st"
  by (auto simp: saveToHistory_def writeArray_def readArray_def split: if_splits)

lemma readArray_init_sdk: "readArray (snd (init_sdk env st)) = readArray st"
  by (simp add: init_sdk_def readArray_def)

lemma send_chain_history:
  "readArray (snd (send_chain s m tp env st)) =
     (case fst (send_chain s m tp env st) of
        Inr response \<Rightarrow>
          \<lparr>date = saved_display env, dateKey = saved_day env, subject = trim s,
           preview = make_preview (trim m)\<rparr> # readArray st
      | Inl err \<Rightarrow> readArray st)"
proof (cases "init_sdk env st")
  case (Pair r st1)
  have st1: "readArray st1 = readArray st"
    using readArray_init_sdk[of env st] Pair by simp
  show ?thesis
  proof (cases r)
    case (Inl err)
    with Pair st1 show ?thesis by (simp add: send_chain_def)
  next
    case (Inr u)
    let ?st2 = "st1\<lparr>relay_calls := relay_calls st1 @ [tp]\<rparr>"
    have st2: "readArray ?st2 = readArray st" using st1 by (simp add: readArray_def)
    show ?thesis
    proof (cases "emailjs_defined env")
      case False
      with Pair Inr st1 show ?thesis by (simp add: send_chain_def)
    next
      case True
      show ?thesis
      proof (cases "relay env")
        case (Failed err)
        with Pair Inr True st2 show ?thesis by (simp add: send_chain_def Let_def)
      next
        case (Delivered response)
        show ?thesis
        proof (cases "saveToHistory (trim s) (trim m) (saved_display env) (saved_day env) ?st2")
          case None
          with Pair Inr True Delivered st2 show ?thesis by (simp add: send_chain_def Let_def)
        next
          case (Some st3)
          from readArray_saveToHistory[OF Some] st2 Pair Inr True Delivered Some
          show ?thesis by (simp add: send_chain_def Let_def)
        qed
      qed
    qed
  qed
qed

lemma send_history:
  "readArray (snd (send s m img env st)) =
     (case fst (send s m img env st) of
        Resolves response \<Rightarrow>
          \<lparr>date = saved_display env, dateKey = saved_day env, subject = trim s,
           preview = make_preview (trim m)\<rparr> # readArray st
      | Rejects err \<Rightarrow> readArray st)"
proof -
  let ?tp = "\<lparr>param_subject = trim s, param_message = trim m, param_date = now_display env,
              param_image_url = (if present img then the img else no_image)\<rparr>"
  show ?thesis
    using send_chain_history[of s m ?tp env st]
    by (cases "send_chain s m ?tp env st")
       (auto simp: send_def Let_def split: sum.splits)
qed

lemma countSentToday_send:
  "saved_day env = day \<Longrightarrow>
   countSentToday day (snd (send s m img env st)) =
     countSentToday day st + (if resolved (fst (send s m img env st)) then 1 else 0)"
  using send_history[of s m img env st]
  by (cases "fst (send s m img env st)") (simp_all add: countSentToday_def)

lemma remaining_formula:
  "getRemainingToday day st = max 0 (10 - int (countSentToday day st))"
  by (simp add: getRemainingToday_def Let_def MAX_MESSAGES_PER_DAY_def)

lemma countSentToday_sends:
  "within_day day calls \<Longrightarrow>
   countSentToday day (snd (sends calls st)) = countSentToday day st + successful (fst (sends calls st))"
proof (induction calls arbitrary: st)
  case Nil
  then show ?case by (simp add: successful_def)
next
  case (Cons c cs)
  obtain r st1 where s1: "send (call_subject c) (call_message c) (call_image c) (call_env c) st = (r, st1)"
    by (cases "send (call_subject c) (call_message c) (call_image c) (call_env c) st")
  obtain rs st2 where s2: "sends cs st1 = (rs, st2)"
    by (cases "sends cs st1")
  have day: "saved_day (call_env c) = day" and rest: "within_day day cs"
    using Cons.prems by (simp_all add: within_day_def)
  have "countSentToday day st1 = countSentToday day st + (if resolved r then 1 else 0)"
    using countSentToday_send[OF day, of "call_subject c" "call_message c" "call_image c" st] s1 by simp
  moreover have "countSentToday day st2 = countSentToday day st1 + successful rs"
    using Cons.IH[OF rest, of st1] s2 by simp
  ultimately show ?case
    using s1 s2 by (simp add: successful_def)
qed

lemmas send_eval =
  send_def Let_def trim_def ascii_def is_space_def isConfigured_def present_def
  getRemainingToday_def countSentToday_def readArray_def MAX_MESSAGES_PER_DAY_def
  send_chain_def init_sdk_def saveToHistory_def writeArray_def make_preview_def

lemma trim_unchanged:
  assumes "s \<noteq> []" and "\<not> is_space (hd s)" and "\<not> is_space (last s)"
  shows "trim s = s"
proof -
  have "dropWhile is_space s = s"
    using assms(1,2) by (cases s) simp_all
  moreover have "dropWhile is_space (rev s) = rev s"
    using assms(1,3) by (cases s rule: rev_cases) simp_all
  ultimately show ?thesis
    by (simp add: trim_def)
qed

lemma trim_leading_space: "is_space c \<Longrightarrow> trim (c # s) = trim s"
  by (simp add: trim_def)

lemma trim_sixty_letters: "trim sixty_letters = sixty_letters"
  by (rule trim_unchanged) (simp_all add: sixty_letters_def is_space_def)

lemma trim_fifty_one_letters: "trim fifty_one_letters = fifty_one_letters"
  by (rule trim_unchanged) (simp_all add: fifty_one_letters_def is_space_def)

lemma trim_padded_fifty: "trim padded_fifty = replicate 50 0x0078"
  unfolding padded_fifty_def
  by (subst trim_leading_space, simp add: is_space_def, rule trim_unchanged)
     (simp_all add: is_space_def)

lemma trim_Hi: "trim (ascii ''Hi'') = ascii ''Hi''"
  by (simp add: trim_def ascii_def is_space_def)

text \<open>A send with a subject and a body, on a configured store with quota left, when all goes well.\<close>

lemma send_goes_through:
  assumes "trim m \<noteq> []"
  shows "fst (send (ascii ''Hi'') m None good_env configured_store) = Resolves relay_ok"
proof -
  have "m \<noteq> []" using assms by (auto simp: trim_def)
  then show ?thesis
    using assms trim_Hi
    by (simp add: send_def Let_def isConfigured_def present_def getRemainingToday_def
        countSentToday_def readArray_def MAX_MESSAGES_PER_DAY_def send_chain_def init_sdk_def
        saveToHistory_def writeArray_def configured_store_def good_env_def)
       (simp add: ascii_def)
qed

subsection \<open>Quota\<close>

lemma count_with_key_filter:
  "count_with_key day rs = length (filter (\<lambda>r. dateKey r = day) rs)"
  by (induction rs) simp_all

lemma countSentToday_records: "countSentToday day st = length (records_of_day day st)"
  by (simp add: countSentToday_def readArray_def records_of_day_def count_with_key_filter
      split: history_item.split)

lemma present_blank: "present v = (\<not> blank v)"
  by (cases v) (simp_all add: present_def blank_def)

text \<open>
  C2 (amended). \<open>getRemainingToday\<close> is 10 less the number of records in the history that carry
  the key of the day, and 0 when there are more than 10; records of other days do not count.
  Let the calls of \<open>send\<close> all fall on one day, of which \<open>k\<close> records are in the history before
  them. Each call that resolves adds one record of the day and the others add none, so after
  them, \<open>N\<close> having resolved, \<open>getRemainingToday\<close> is \<open>max 0 (10 - (k + N))\<close>; that is
  \<open>max 0 (10 - N)\<close> when the history held no record of the day. And when the history holds ten
  records of the day or more, a \<open>send\<close> does not resolve and leaves the state, the history in
  it, as it is; with a subject, a body and the three credentials in place it rejects with the
  daily-limit error.
\<close>

theorem quota_after_sends:
  "getRemainingToday day st = max 0 (10 - int (length (records_of_day day st))) \<and>
   (within_day day calls \<longrightarrow>
      length (records_of_day day (snd (sends calls st))) =
        length (records_of_day day st) + successful (fst (sends calls st)) \<and>
      getRemainingToday day (snd (sends calls st)) =
        max 0 (10 - (int (length (records_of_day day st)) + int (successful (fst (sends calls st)))))) \<and>
   (within_day day calls \<and> records_of_day day st = [] \<longrightarrow>
      getRemainingToday day (snd (sends calls st)) =
        max 0 (10 - int (successful (fst (sends calls st))))) \<and>
   (10 \<le> length (records_of_day (check_day env) st) \<longrightarrow>
      \<not> resolved (fst (send s m img env st)) \<and>
      snd (send s m img env st) = st \<and>
      (trim s \<noteq> [] \<and> trim m \<noteq> [] \<and>
       \<not> blank (service_id st) \<and> \<not> blank (template_id st) \<and> \<not> blank (public_key st) \<longrightarrow>
         fst (send s m img env st) = Rejects (Error limit_text)))"
proof (intro conjI impI)
  show "getRemainingToday day st = max 0 (10 - int (length (records_of_day day st)))"
    by (simp add: remaining_formula countSentToday_records)
next
  assume w: "within_day day calls"
  from countSentToday_sends[OF w, of st]
  show "length (records_of_day day (snd (sends calls st))) =
          length (records_of_day day st) + successful (fst (sends calls st))"
    by (simp add: countSentToday_records)
  from countSentToday_sends[OF w, of st]
  show "getRemainingToday day (snd (sends calls st)) =
      max 0 (10 - (int (length (records_of_day day st)) + int (successful (fst (sends calls st)))))"
    by (simp add: remaining_formula countSentToday_records)
next
  assume "within_day day calls \<and> records_of_day day st = []"
  then have w: "within_day day calls" and e: "records_of_day day st = []"
    by simp_all
  from countSentToday_sends[OF w, of st] e
  show "getRemainingToday day (snd (sends calls st)) =
      max 0 (10 - int (successful (fst (sends calls st))))"
    by (simp add: remaining_formula countSentToday_records)
next
  assume "10 \<le> length (records_of_day (check_day env) st)"
  then have z: "getRemainingToday (check_day env) st = 0"
    by (simp add: remaining_formula countSentToday_records)
  then show "\<not> resolved (fst (send s m img env st))" and "snd (send s m img env st) = st"
    by (simp_all add: send_def)
  assume a: "trim s \<noteq> [] \<and> trim m \<noteq> [] \<and>
       \<not> blank (service_id st) \<and> \<not> blank (template_id st) \<and> \<not> blank (public_key st)"
  then have "s \<noteq> []" "m \<noteq> []" by (auto simp: trim_def)
  moreover have "isConfigured st"
    using a by (simp add: isConfigured_def present_blank)
  ultimately show "fst (send s m img env st) = Rejects (Error limit_text)"
    using a z by (simp add: send_def)
qed

lemma two_sends_after_eve:
  "fst (sends [hello_call, hello_call] day_after_store) = [Resolves relay_ok, Resolves relay_ok]"
  by (simp add: hello_call_def send_eval day_after_store_def configured_store_def good_env_def
      eve_record_def count_with_key_filter)

theorem quota_after_sends_witness:
  "within_day (ascii ''2024-01-01'') [hello_call, hello_call] \<and>
   records_of_day (ascii ''2024-01-01'') day_after_store = [] \<and>
   length (records_of_day (ascii ''2023-12-31'') day_after_store) = 10 \<and>
   fst (sends [hello_call, hello_call] day_after_store) = [Resolves relay_ok, Resolves relay_ok] \<and>
   getRemainingToday (ascii ''2024-01-01'') day_after_store = 10 \<and>
   getRemainingToday (ascii ''2024-01-01'') (snd (sends [hello_call, hello_call] day_after_store)) = 8 \<and>
   length (records_of_day (check_day good_env) full_day_store) = 10 \<and>
   send (ascii ''Hi'') (ascii ''Hello uncle'') None good_env full_day_store =
     (Rejects (Error limit_text), full_day_store)"
proof -
  have w: "within_day (ascii ''2024-01-01'') [hello_call, hello_call]"
    by (simp add: within_day_def hello_call_def good_env_def)
  have c: "records_of_day (ascii ''2024-01-01'') day_after_store = []"
    "length (records_of_day (ascii ''2023-12-31'') day_after_store) = 10"
    by (simp_all add: records_of_day_def day_after_store_def eve_record_def ascii_def)
  have z: "length (records_of_day (check_day good_env) full_day_store) = 10"
    by (simp add: records_of_day_def full_day_store_def sent_record_def good_env_def)
  have v: "trim (ascii ''Hi'') \<noteq> [] \<and> trim (ascii ''Hello uncle'') \<noteq> [] \<and>
           \<not> blank (service_id full_day_store) \<and> \<not> blank (template_id full_day_store) \<and>
           \<not> blank (public_key full_day_store)"
    by (simp add: trim_def ascii_def is_space_def blank_def full_day_store_def
        configured_store_def)
  from quota_after_sends
         [where day = "ascii ''2024-01-01''" and calls = "[hello_call, hello_call]"
            and st = day_after_store]
       quota_after_sends
         [where env = good_env and st = full_day_store and s = "ascii ''Hi''"
            and m = "ascii ''Hello uncle''" and img = None]
       w c z v two_sends_after_eve
  show ?thesis
    by (simp add: prod_eq_iff successful_def)
qed

text \<open>
  The claim as stated fails for a history that already holds a record of the day: after one
  successful send the remaining quota is 8, where \<open>max 0 (10 - 1)\<close> is 9.
\<close>

theorem quota_with_earlier_record_counterexample:
  "fst (sends [hello_call] one_sent_store) = [Resolves relay_ok] \<and>
   getRemainingToday (ascii ''2024-01-01'') (snd (sends [hello_call] one_sent_store)) = 8"
  by (simp add: hello_call_def send_eval one_sent_store_def configured_store_def good_env_def
      sent_record_def count_with_key_filter)

subsection \<open>History\<close>

text \<open>
  C7 (amended). After a \<open>send\<close> that resolved, \<open>getHistory\<close> is the former history with one
  entry put in front: the subject after \<open>trim\<close>, and as preview the body after \<open>trim\<close>, cut to
  its first 50 code units and followed by three dots when it is longer than 50 after \<open>trim\<close>.
\<close>

theorem history_newest_first:
  assumes "fst (send s m img env st) = Resolves response"
  shows "getHistory (snd (send s m img env st)) =
           \<lparr>entry_date = saved_display env, entry_subject = trim s,
            entry_preview = (if length (trim m) > 50 then take 50 (trim m) @ ascii ''...''
                             else trim m)\<rparr>
           # getHistory st"
  using send_history[of s m img env st] assms
  by (simp add: getHistory_def make_preview_def)

theorem history_newest_first_witness:
  "fst (send (ascii ''Hi'') sixty_letters None good_env configured_store) = Resolves relay_ok \<and>
   getHistory (snd (send (ascii ''Hi'') sixty_letters None good_env configured_store)) =
     [\<lparr>entry_date = ascii ''01.01.2024, 10:01'', entry_subject = ascii ''Hi'',
       entry_preview = replicate 50 0x0078 @ ascii ''...''\<rparr>]"
proof -
  have r: "fst (send (ascii ''Hi'') sixty_letters None good_env configured_store) = Resolves relay_ok"
    by (rule send_goes_through) (simp add: trim_sixty_letters, simp add: sixty_letters_def)
  have h: "getHistory configured_store = []"
    by (simp add: getHistory_def readArray_def configured_store_def)
  from history_newest_first[OF r] r h show ?thesis
    by (simp add: trim_sixty_letters trim_Hi) (simp add: sixty_letters_def good_env_def)
qed

text \<open>
  The claim as stated fails for a body of 51 code units that starts with a space: the preview
  is the 50 letters, not the first 50 code units of the body and three dots.
\<close>

theorem preview_of_padded_body_counterexample:
  "length padded_fifty = 51 \<and>
   fst (send (ascii ''Hi'') padded_fifty None good_env configured_store) = Resolves relay_ok \<and>
   map entry_preview (getHistory (snd (send (ascii ''Hi'') padded_fifty None good_env configured_store))) =
     [replicate 50 0x0078] \<and>
   replicate 50 0x0078 \<noteq> take 50 padded_fifty @ ascii ''...''"
proof -
  have r: "fst (send (ascii ''Hi'') padded_fifty None good_env configured_store) = Resolves relay_ok"
    by (rule send_goes_through) (simp add: trim_padded_fifty)
  have h: "readArray configured_store = []"
    by (simp add: readArray_def configured_store_def)
  have p: "map entry_preview (getHistory (snd (send (ascii ''Hi'') padded_fifty None good_env configured_store))) =
             [replicate 50 0x0078]"
    using send_history[of "ascii ''Hi''" padded_fifty None good_env configured_store] r h
    by (simp add: getHistory_def make_preview_def trim_padded_fifty)
  have "length (replicate 50 (0x0078 :: 16 word)) \<noteq> length (take 50 padded_fifty @ ascii ''...'')"
    by (simp add: padded_fifty_def ascii_def)
  then have "replicate 50 0x0078 \<noteq> take 50 padded_fifty @ ascii ''...''"
    by metis
  with r p show ?thesis
    by (simp add: padded_fifty_def)
qed

text \<open>
  C8 (amended). The record that a \<open>send\<close> which resolved puts in front of the history has a
  preview whose first 50 code units are those of the body after \<open>trim\<close>, and whose rest is
  three dots when that body is longer than 50 and nothing otherwise; so it has at most 53 code
  units, and at most 50 exactly when the body after \<open>trim\<close> has.
\<close>

theorem preview_bound:
  assumes "fst (send s m img env st) = Resolves response"
  shows "\<exists>r. readArray (snd (send s m img env st)) = r # readArray st \<and>
              take 50 (preview r) = take 50 (trim m) \<and>
              drop 50 (preview r) = (if length (trim m) > 50 then ascii ''...'' else []) \<and>
              length (preview r) \<le> 53 \<and>
              (length (preview r) \<le> 50) = (length (trim m) \<le> 50)"
  using send_history[of s m img env st] assms
  by (simp add: make_preview_def ascii_def)

theorem preview_bound_witness:
  "fst (send (ascii ''Hi'') (ascii ''Hello uncle'') None good_env configured_store) =
     Resolves relay_ok \<and>
   (\<exists>r. readArray (snd (send (ascii ''Hi'') (ascii ''Hello uncle'') None good_env configured_store)) =
           [r] \<and>
         take 50 (preview r) = ascii ''Hello uncle'' \<and> drop 50 (preview r) = [] \<and>
         length (preview r) \<le> 53)"
proof -
  have t: "trim (ascii ''Hello uncle'') = ascii ''Hello uncle''"
    by (simp add: trim_def ascii_def is_space_def)
  have r: "fst (send (ascii ''Hi'') (ascii ''Hello uncle'') None good_env configured_store) =
             Resolves relay_ok"
    by (rule send_goes_through) (simp add: t, simp add: ascii_def)
  have h: "readArray configured_store = []"
    by (simp add: readArray_def configured_store_def)
  from preview_bound[OF r] r show ?thesis
    by (simp add: t h) (auto simp: ascii_def)
qed

text \<open>The claim as stated fails for a body of 51 letters: the preview has 53 code units.\<close>

theorem preview_length_counterexample:
  "length fifty_one_letters = 51 \<and>
   fst (send (ascii ''Hi'') fifty_one_letters None good_env configured_store) = Resolves relay_ok \<and>
   map (\<lambda>r. length (preview r))
     (readArray (snd (send (ascii ''Hi'') fifty_one_letters None good_env configured_store))) = [53]"
proof -
  have r: "fst (send (ascii ''Hi'') fifty_one_letters None good_env configured_store) =
             Resolves relay_ok"
    by (rule send_goes_through) (simp add: trim_fifty_one_letters, simp add: fifty_one_letters_def)
  have h: "readArray configured_store = []"
    by (simp add: readArray_def configured_store_def)
  show ?thesis
    using send_history[of "ascii ''Hi''" fifty_one_letters None good_env configured_store] r h
    by (simp add: trim_fifty_one_letters make_preview_def) (simp add: fifty_one_letters_def ascii_def)
qed

subsection \<open>Errors\<close>

lemma starts_with_append: "starts_with (m @ s) m"
  by (induction m) simp_all

lemma contains_append: "contains (a @ m @ b) m"
proof (induction a)
  case Nil
  show ?case
    by (cases "m @ b") (use starts_with_append[of m b] in auto)
next
  case (Cons c a)
  then show ?case by simp
qed

lemma own_sdk_load: "is_own_error (Error sdk_load_text)"
proof -
  have "sdk_load_text = ascii ''EmailJS '' @ marker_sdk_load @
          ([0x002E, 0x0020, 0x041F, 0x0440, 0x043E, 0x0432, 0x0435, 0x0440, 0x0438, 0x0020, 0x0438, 0x043D,
            0x0442, 0x0435, 0x0440, 0x043D, 0x0435, 0x0442, 0x0020, 0x0432, 0x0440, 0x044A, 0x0437, 0x043A,
            0x0430, 0x0442, 0x0430] @
           ascii ''! / Failed to load EmailJS SDK. Check your internet connection!'')"
    by (simp add: sdk_load_text_def marker_sdk_load_def ascii_def)
  then have "contains sdk_load_text marker_sdk_load"
    using contains_append by metis
  then show ?thesis
    by (simp add: is_own_error_def Error_def) (simp add: sdk_load_text_def)
qed

lemma own_sdk_unavailable: "is_own_error (Error sdk_unavailable_text)"
proof -
  have "sdk_unavailable_text = ascii ''EmailJS '' @ marker_sdk_unavailable @
          ([0x002E, 0x0020, 0x041F, 0x0440, 0x0435, 0x0437, 0x0430, 0x0440,
            0x0435, 0x0434, 0x0438, 0x0020, 0x0441, 0x0442, 0x0440, 0x0430, 0x043D, 0x0438,
            0x0446, 0x0430, 0x0442, 0x0430] @
           ascii ''! / EmailJS SDK not available. Please reload the page!'')"
    by (simp add: sdk_unavailable_text_def marker_sdk_unavailable_def ascii_def)
  then have "contains sdk_unavailable_text marker_sdk_unavailable"
    using contains_append by metis
  then show ?thesis
    by (simp add: is_own_error_def Error_def) (simp add: sdk_unavailable_text_def)
qed

text \<open>The two errors of the chain that are the module's own pass the \<open>catch\<close> handler as they are.\<close>

lemma send_failure_own:
  "send_failure (Error sdk_load_text) = Error sdk_load_text"
  "send_failure (Error sdk_unavailable_text) = Error sdk_unavailable_text"
  by (simp_all add: send_failure_def own_sdk_load own_sdk_unavailable)











subsection \<open>Clearing the history\<close>

text \<open>
  C10. Whatever the history holds, after \<open>clearHistory\<close> no record counts for any day and
  \<open>getRemainingToday\<close> is the full 10.
\<close>

theorem clearHistory_resets_quota:
  "getRemainingToday day (clearHistory st) = 10 \<and> countSentToday day (clearHistory st) = 0"
  by (simp add: getRemainingToday_def countSentToday_def readArray_def clearHistory_def
      MAX_MESSAGES_PER_DAY_def)

end
